(* ===== verification/Prelude.thy ===== *)
theory Prelude
  imports Main "HOL-Library.Word" "HOL-Library.AList" "HOL-Library.Sublist" "HOL-Library.Multiset"
begin

text \<open>
  The prelude of the SideDNS development: what the components share.

  \<^item> The machine integers the sources use, as words.
  \<^item> The operations of the Rust standard library on \<^verbatim>\<open>str\<close>, \<^verbatim>\<open>String\<close>
    and \<^verbatim>\<open>Vec\<close> that the sources call. A Rust string is a UTF-8 byte sequence whose
    \<^verbatim>\<open>len()\<close> counts bytes, so it is modelled by \<^typ>\<open>string\<close>, a list of bytes.
  \<^item> The iteration-order-free view of \<^verbatim>\<open>HashMap\<close> as an association list with
    distinct keys.
  \<^item> The fact collections \<open>str_simps\<close> and \<open>table_simps\<close>, used by the components.
\<close>

section \<open>Fact collections and machine types\<close>

named_theorems str_simps \<open>string operations unfolded to list facts\<close>
named_theorems table_simps \<open>lookup and length laws of hash tables\<close>

type_synonym u8 = "8 word"
type_synonym u16 = "16 word"
type_synonym u32 = "32 word"

section \<open>Strings of the Rust standard library\<close>

text \<open>\<^verbatim>\<open>str::strip_prefix\<close>: the rest after the prefix, if the string starts with it.\<close>

fun strip_prefix :: "string \<Rightarrow> string \<Rightarrow> string option" where
  "strip_prefix [] s = Some s"
| "strip_prefix (p # ps) [] = None"
| "strip_prefix (p # ps) (c # cs) = (if p = c then strip_prefix ps cs else None)"

text \<open>\<^verbatim>\<open>str::starts_with\<close> and \<^verbatim>\<open>str::ends_with\<close>.\<close>

definition starts_with :: "string \<Rightarrow> string \<Rightarrow> bool" where
  "starts_with s p = (take (length p) s = p)"

definition ends_with :: "string \<Rightarrow> string \<Rightarrow> bool" where
  "ends_with s t = (length t \<le> length s \<and> drop (length s - length t) s = t)"

text \<open>\<^verbatim>\<open>str::contains\<close> with a string pattern: some suffix starts with it.\<close>

fun contains :: "string \<Rightarrow> string \<Rightarrow> bool" where
  "contains [] p = (p = [])"
| "contains (c # cs) p = (starts_with (c # cs) p \<or> contains cs p)"

text \<open>\<^verbatim>\<open>str::trim_end_matches\<close> with a character: every trailing occurrence goes.\<close>

definition trim_end_matches :: "char \<Rightarrow> string \<Rightarrow> string" where
  "trim_end_matches c s = rev (dropWhile (\<lambda>x. x = c) (rev s))"

text \<open>\<^verbatim>\<open>s.split(c).next()\<close>: what comes before the first \<open>c\<close>; never absent.\<close>

definition split_next :: "char \<Rightarrow> string \<Rightarrow> string" where
  "split_next c s = takeWhile (\<lambda>x. x \<noteq> c) s"

text \<open>Lower case of one ASCII byte, and \<^verbatim>\<open>str::to_ascii_lowercase\<close>.\<close>

definition ascii_upper :: "char \<Rightarrow> bool" where
  "ascii_upper c = (65 \<le> (of_char c :: nat) \<and> (of_char c :: nat) \<le> 90)"

definition lower_char :: "char \<Rightarrow> char" where
  "lower_char c = (if ascii_upper c then char_of ((of_char c :: nat) + 32) else c)"

definition to_ascii_lowercase :: "string \<Rightarrow> string" where
  "to_ascii_lowercase s = map lower_char s"

text \<open>
  \<^verbatim>\<open>str::to_lowercase\<close> maps Unicode characters. Every ASCII byte is mapped as above, and
  the Kelvin sign U+212A (bytes E2 84 AA), the only non-ASCII character whose lower case is
  ASCII, becomes the letter k. Other multi-byte characters are left alone: of the strings this
  development lowers, those accepted by \<^verbatim>\<open>validate_domain\<close> hold no non-ASCII character
  besides U+212A and U+017F (which is its own lower case), and Host headers are ASCII.
\<close>

definition kelvin :: string where
  "kelvin = [char_of (226 :: nat), char_of (132 :: nat), char_of (170 :: nat)]"

definition long_s :: string where
  "long_s = [char_of (197 :: nat), char_of (191 :: nat)]"

fun to_lowercase :: "string \<Rightarrow> string" where
  "to_lowercase (a # b # c # s) =
     (if [a, b, c] = kelvin then CHR ''k'' # to_lowercase s
      else lower_char a # to_lowercase (b # c # s))"
| "to_lowercase s = map lower_char s"

definition ascii :: "string \<Rightarrow> bool" where
  "ascii s = list_all (\<lambda>c. (of_char c :: nat) < 128) s"

text \<open>
  The platform a build is for, and \<^verbatim>\<open>Path::join\<close> with a relative path on it (a bare drive letter
  aside).
\<close>

datatype platform = Linux | MacOs | Windows | OtherOs

definition backslash :: char where
  "backslash = CHR 0x5C"

definition join_dir :: "platform \<Rightarrow> string \<Rightarrow> string \<Rightarrow> string" where
  "join_dir pf dir p =
     (if dir = [] \<or> last dir = CHR ''/'' \<or> pf = Windows \<and> last dir = backslash then dir @ p
      else dir @ (if pf = Windows then backslash else CHR ''/'') # p)"

section \<open>Facts about options and strings\<close>

lemma disjoint_by: "\<forall>x\<in>A. P x \<Longrightarrow> \<forall>x\<in>B. \<not> P x \<Longrightarrow> A \<inter> B = {}"
  by blast

lemma option_eqI: "(\<And>x. a = Some x \<longleftrightarrow> b = Some x) \<Longrightarrow> a = b"
  by (cases a; cases b) auto

lemma case_option_id [simp]: "(case x of None \<Rightarrow> None | Some r \<Rightarrow> Some r) = x"
  by (cases x) auto

lemma strip_prefix_iff [str_simps]: "strip_prefix p s = Some t \<longleftrightarrow> s = p @ t"
  by (induction p s rule: strip_prefix.induct) auto

lemma strip_prefix_None: "strip_prefix p s = None \<longleftrightarrow> \<not> prefix p s"
  by (induction p s rule: strip_prefix.induct) auto

lemma starts_with_iff [str_simps]: "starts_with s p \<longleftrightarrow> (\<exists>t. s = p @ t)"
  by (auto simp: starts_with_def) (metis append_take_drop_id)

lemma strip_prefix_starts_with: "starts_with s p \<longleftrightarrow> (\<exists>t. strip_prefix p s = Some t)"
  by (simp add: str_simps)

lemma ends_with_iff [str_simps]: "ends_with s t \<longleftrightarrow> (\<exists>p. s = p @ t)"
  by (auto simp: ends_with_def) (metis append_take_drop_id)

lemma contains_iff [str_simps]: "contains s p \<longleftrightarrow> (\<exists>l r. s = l @ p @ r)"
proof (induction s)
  case (Cons c cs)
  have "(\<exists>l r. c # cs = l @ p @ r) \<longleftrightarrow> (\<exists>r. c # cs = p @ r) \<or> (\<exists>l r. cs = l @ p @ r)"
    by (metis append_Cons append_Nil neq_Nil_conv list.inject)
  with Cons show ?case by (simp add: starts_with_iff)
qed simp

text \<open>
  The suffix test that both \<^verbatim>\<open>DnsRule::matches\<close> and
  \<^verbatim>\<open>DomainResolver::invalidate\<close> spell out byte by byte: the string ends in the suffix,
  is longer, and has a dot right before it.
\<close>

definition dotted_suffix :: "string \<Rightarrow> string \<Rightarrow> bool" where
  "dotted_suffix d suf =
     (ends_with d suf \<and> length d > length suf \<and> d ! (length d - length suf - 1) = CHR ''.'')"

lemma dotted_suffix_iff [str_simps]: "dotted_suffix d suf \<longleftrightarrow> (\<exists>p. d = p @ CHR ''.'' # suf)"
proof
  assume "dotted_suffix d suf"
  then obtain q where q: "d = q @ suf" and "q \<noteq> []" and dot: "q ! (length q - 1) = CHR ''.''"
    by (fastforce simp: dotted_suffix_def ends_with_iff nth_append)
  from \<open>q \<noteq> []\<close> dot have "q = butlast q @ [CHR ''.'']"
    by (metis append_butlast_last_id last_conv_nth)
  with q show "\<exists>p. d = p @ CHR ''.'' # suf"
    by (metis append.assoc append_Cons append_Nil)
qed (auto simp: dotted_suffix_def ends_with_iff nth_append)

lemma trim_end_no_suffix: "trim_end_matches c s = [] \<or> last (trim_end_matches c s) \<noteq> c"
proof (cases "dropWhile (\<lambda>x. x = c) (rev s)")
  case (Cons a list)
  then have "a \<noteq> c" by (simp add: dropWhile_eq_Cons_conv)
  with Cons show ?thesis by (simp add: trim_end_matches_def)
qed (simp add: trim_end_matches_def)

lemma trim_end_snoc [simp]: "trim_end_matches c (s @ [c]) = trim_end_matches c s"
  by (simp add: trim_end_matches_def)

lemma trim_end_id: "s = [] \<or> last s \<noteq> c \<Longrightarrow> trim_end_matches c s = s"
  by (cases s rule: rev_cases) (auto simp: trim_end_matches_def)

lemma of_char_lower_char:
  "(of_char (lower_char c) :: nat) = (if ascii_upper c then of_char c + 32 else of_char c)"
  by (simp add: lower_char_def ascii_upper_def)

lemma lower_char_idem [simp]: "lower_char (lower_char c) = lower_char c"
  using of_char_lower_char [of c] by (auto simp: lower_char_def [of "lower_char c"] ascii_upper_def)

lemma to_ascii_lowercase_idem [simp]:
  "to_ascii_lowercase (to_ascii_lowercase s) = to_ascii_lowercase s"
  by (simp add: to_ascii_lowercase_def)

lemma ascii_simps [simp]:
  "ascii []"
  "ascii (c # s) \<longleftrightarrow> (of_char c :: nat) < 128 \<and> ascii s"
  "ascii (s @ t) \<longleftrightarrow> ascii s \<and> ascii t"
  by (auto simp: ascii_def)

lemma kelvin_not_ascii: "[a, b, c] = kelvin \<Longrightarrow> \<not> (of_char a :: nat) < 128"
  by (simp add: kelvin_def)

text \<open>On ASCII strings the Unicode mapping is the ASCII one.\<close>

lemma to_lowercase_ascii: "ascii s \<Longrightarrow> to_lowercase s = to_ascii_lowercase s"
  by (induction s rule: to_lowercase.induct)
     (auto simp: to_ascii_lowercase_def dest: kelvin_not_ascii)

lemma of_char_less_256: "(of_char (c :: char) :: nat) < 256"
  using nat_of_char_less_256 [of c] by simp

lemma lower_char_high: "128 \<le> (of_char c :: nat) \<Longrightarrow> lower_char c = c"
  by (simp add: lower_char_def ascii_upper_def)

section \<open>Vectors\<close>

text \<open>
  \<^verbatim>\<open>Vec::swap_remove(i)\<close> takes out the element at \<open>i\<close> and puts the last element in its
  place. It panics when \<open>i\<close> is out of range; its callers in the sources pass a position that
  \<^verbatim>\<open>position\<close> returned, so the result is defined here for indices in range.
\<close>

definition swap_remove :: "nat \<Rightarrow> 'a list \<Rightarrow> 'a list" where
  "swap_remove i xs = butlast (xs[i := last xs])"

text \<open>\<^verbatim>\<open>iter().position(p)\<close>: the index of the first element that satisfies the test.\<close>

fun position :: "('a \<Rightarrow> bool) \<Rightarrow> 'a list \<Rightarrow> nat option" where
  "position p [] = None"
| "position p (x # xs) = (if p x then Some 0 else map_option Suc (position p xs))"

lemma position_Some:
  "position p xs = Some i \<Longrightarrow> i < length xs \<and> p (xs ! i) \<and> (\<forall>j < i. \<not> p (xs ! j))"
proof (induction xs arbitrary: i)
  case (Cons x xs)
  then show ?case by (cases i) (auto split: if_splits simp: less_Suc_eq_0_disj)
qed simp

lemma position_None: "position p xs = None \<longleftrightarrow> (\<forall>x\<in>set xs. \<not> p x)"
  by (induction xs) auto

lemma length_swap_remove [simp]: "length (swap_remove i xs) = length xs - 1"
  by (simp add: swap_remove_def)

lemma mset_swap_remove:
  assumes "i < length xs"
  shows "mset (swap_remove i xs) = mset xs - {#xs ! i#}"
proof -
  from assms have ne: "xs \<noteq> []" by auto
  then have l: "last (xs[i := last xs]) = last xs"
    by (metis assms last_list_update)
  have "mset (xs[i := last xs]) = add_mset (last xs) (mset (swap_remove i xs))"
    using append_butlast_last_id [of "xs[i := last xs]"] ne l
    unfolding swap_remove_def
    by (metis add_mset_add_single list_update_nonempty mset.simps(1,2) mset_append)
  then have "add_mset (last xs) (mset (swap_remove i xs)) = add_mset (last xs) (mset xs - {#xs ! i#})"
    using assms by (simp add: mset_update)
  then show ?thesis by simp
qed

lemma set_swap_remove_distinct:
  assumes "i < length xs" "distinct xs"
  shows "set (swap_remove i xs) = set xs - {xs ! i}"
proof -
  from assms(1) have "mset (swap_remove i xs) = mset (remove1 (xs ! i) xs)"
    by (simp add: mset_swap_remove)
  then have "set (swap_remove i xs) = set (remove1 (xs ! i) xs)"
    by (rule mset_eq_setD)
  with assms(2) show ?thesis by simp
qed

text \<open>The first match in a vector, under the updates the rule store makes.\<close>

lemma find_filter_irrelevant: "\<forall>x\<in>set xs. \<not> Q x \<longrightarrow> \<not> P x \<Longrightarrow> find P (filter Q xs) = find P xs"
  by (induction xs) auto

lemma find_append: "find P (xs @ ys) = (case find P xs of Some x \<Rightarrow> Some x | None \<Rightarrow> find P ys)"
  by (induction xs) auto

lemma find_SomeD: "find P xs = Some x \<Longrightarrow> x \<in> set xs \<and> P x"
  by (auto simp: find_Some_iff)

lemma find_map: "find P (map f xs) = map_option f (find (\<lambda>x. P (f x)) xs)"
  by (induction xs) auto

lemma find_sorted_least:
  "sorted (map fst ps) \<Longrightarrow> find P ps = Some p \<Longrightarrow> q \<in> set ps \<Longrightarrow> P q \<Longrightarrow> fst p \<le> fst q"
  by (induction ps) (auto split: if_splits)

definition single_match :: "('a \<Rightarrow> bool) \<Rightarrow> 'a list \<Rightarrow> bool" where
  "single_match P xs = (length (filter P xs) \<le> 1)"

lemma find_eq_filter: "find P xs = (case filter P xs of [] \<Rightarrow> None | x # _ \<Rightarrow> Some x)"
  by (induction xs) auto

lemma find_swap_remove:
  assumes "i < length xs" "\<not> P (xs ! i)" "single_match P xs"
  shows "find P (swap_remove i xs) = find P xs"
proof -
  have "mset (filter P (swap_remove i xs)) = filter_mset P (mset xs - {#xs ! i#})"
    using assms(1) by (simp add: mset_swap_remove)
  also have "\<dots> = mset (filter P xs)"
    using assms(2) by simp
  finally have "mset (filter P (swap_remove i xs)) = mset (filter P xs)" .
  moreover have "filter P xs = [] \<or> (\<exists>x. filter P xs = [x])"
    using assms(3) by (cases "filter P xs") (auto simp: single_match_def)
  ultimately have "filter P (swap_remove i xs) = filter P xs"
    by (metis mset_single_iff mset_zero_iff mset.simps(1) mset_single_iff_right)
  then show ?thesis by (simp add: find_eq_filter)
qed

section \<open>Hash tables\<close>

text \<open>
  A \<^verbatim>\<open>HashMap<String, V>\<close> is an association list with distinct keys: \<open>get\<close> is \<open>map_of\<close>,
  \<open>insert\<close> is \<open>AList.update\<close>, \<open>remove\<close> is \<open>AList.delete\<close>, \<open>values()\<close> is \<open>map snd\<close>.
  The iteration order of a hash map is not specified; the list's order stands for one of the
  possible orders, and no property below depends on which.
\<close>

type_synonym 'v table = "(string \<times> 'v) list"

definition table_ok :: "'v table \<Rightarrow> bool" where
  "table_ok m = distinct (map fst m)"

lemma table_ok_Nil [simp]: "table_ok []"
  by (simp add: table_ok_def)

lemma table_ok_update [simp]: "table_ok m \<Longrightarrow> table_ok (AList.update k v m)"
  by (simp add: table_ok_def distinct_update)

lemma table_ok_delete [simp]: "table_ok m \<Longrightarrow> table_ok (AList.delete k m)"
  by (simp add: table_ok_def distinct_delete)

lemma table_get_update [table_simps]:
  "map_of (AList.update k v m) x = (if x = k then Some v else map_of m x)"
  by (simp add: update_conv')

lemma table_get_delete [table_simps]:
  "map_of (AList.delete k m) x = (if x = k then None else map_of m x)"
  by (simp add: delete_conv')

lemma table_mem: "table_ok m \<Longrightarrow> (k, v) \<in> set m \<longleftrightarrow> map_of m k = Some v"
  by (simp add: table_ok_def)

lemma set_table_update [table_simps]:
  assumes "table_ok m"
  shows "set (AList.update k v m) = insert (k, v) {p \<in> set m. fst p \<noteq> k}"
proof -
  have "(a, b) \<in> set (AList.update k v m) \<longleftrightarrow> (a, b) \<in> insert (k, v) {p \<in> set m. fst p \<noteq> k}" for a b
    using assms by (auto simp: table_mem table_get_update split: if_splits)
  then show ?thesis by auto
qed

lemma set_table_delete [table_simps]: "set (AList.delete k m) = {p \<in> set m. fst p \<noteq> k}"
  by (auto simp: AList.delete_eq)

lemma length_table_update [table_simps]:
  "length (AList.update k v m) = (if k \<in> fst ` set m then length m else Suc (length m))"
  by (induction m) auto

lemma length_table_delete [table_simps]:
  "table_ok m \<Longrightarrow> length (AList.delete k m) = (if k \<in> fst ` set m then length m - 1 else length m)"
proof (induction m)
  case (Cons p m)
  then show ?case
    by (cases p) (auto simp: table_ok_def AList.delete_eq filter_id_conv neq_Nil_conv
      dest: length_pos_if_in_set)
qed simp

lemma map_of_filter_None: "x \<notin> fst ` set m \<Longrightarrow> map_of m x = None"
  by (simp add: map_of_eq_None_iff)

end
