(* ===== verification/Regex.thy ===== *)
theory Regex
  imports Prelude
begin

text \<open>
  The fragment of regular expressions that \<^verbatim>\<open>core/src/config.rs\<close> uses, over the bytes of a
  UTF-8 string: byte ranges, literals, sequence, alternative, Kleene star and the bounded
  repetition \<open>r{m,n}\<close>. \<open>re_match\<close> says which strings an expression denotes; \<open>re_matches\<close> is
  an executable matcher by derivatives. The two are proved equal, so that the validation of
  domain names can be both computed and reasoned about.
\<close>

section \<open>Expressions and their meaning\<close>

datatype regex =
    Nul
  | Eps
  | Rng char char
  | Lit string
  | Seq regex regex
  | Alt regex regex
  | Star regex

definition in_range :: "char \<Rightarrow> char \<Rightarrow> char \<Rightarrow> bool" where
  "in_range lo hi c = ((of_char lo :: nat) \<le> of_char c \<and> (of_char c :: nat) \<le> of_char hi)"

inductive re_match :: "regex \<Rightarrow> string \<Rightarrow> bool" where
  eps: "re_match Eps []"
| rng: "in_range lo hi c \<Longrightarrow> re_match (Rng lo hi) [c]"
| lit: "re_match (Lit s) s"
| seq: "re_match r s \<Longrightarrow> re_match q t \<Longrightarrow> re_match (Seq r q) (s @ t)"
| alt1: "re_match r s \<Longrightarrow> re_match (Alt r q) s"
| alt2: "re_match q s \<Longrightarrow> re_match (Alt r q) s"
| star0: "re_match (Star r) []"
| star1: "re_match r s \<Longrightarrow> re_match (Star r) t \<Longrightarrow> re_match (Star r) (s @ t)"

declare re_match.intros [intro]

inductive_simps re_match_Nul [simp]: "re_match Nul s"
inductive_simps re_match_Eps [simp]: "re_match Eps s"
inductive_simps re_match_Rng: "re_match (Rng lo hi) s"
inductive_simps re_match_Lit [simp]: "re_match (Lit l) s"
inductive_simps re_match_Seq: "re_match (Seq r q) s"
inductive_simps re_match_Alt [simp]: "re_match (Alt r q) s"

inductive_cases StarE: "re_match (Star r) s"

section \<open>The executable matcher\<close>

fun nullable :: "regex \<Rightarrow> bool" where
  "nullable Nul = False"
| "nullable Eps = True"
| "nullable (Rng lo hi) = False"
| "nullable (Lit s) = (s = [])"
| "nullable (Seq r q) = (nullable r \<and> nullable q)"
| "nullable (Alt r q) = (nullable r \<or> nullable q)"
| "nullable (Star r) = True"

text \<open>Constructors that drop dead and empty parts, so that derivatives stay small.\<close>

fun mk_seq :: "regex \<Rightarrow> regex \<Rightarrow> regex" where
  "mk_seq Nul q = Nul"
| "mk_seq Eps q = q"
| "mk_seq r q = Seq r q"

fun mk_alt :: "regex \<Rightarrow> regex \<Rightarrow> regex" where
  "mk_alt Nul q = q"
| "mk_alt r Nul = r"
| "mk_alt r q = Alt r q"

fun deriv :: "char \<Rightarrow> regex \<Rightarrow> regex" where
  "deriv c Nul = Nul"
| "deriv c Eps = Nul"
| "deriv c (Rng lo hi) = (if in_range lo hi c then Eps else Nul)"
| "deriv c (Lit []) = Nul"
| "deriv c (Lit (d # s)) = (if c = d then (if s = [] then Eps else Lit s) else Nul)"
| "deriv c (Seq r q) =
     (if nullable r then mk_alt (mk_seq (deriv c r) q) (deriv c q) else mk_seq (deriv c r) q)"
| "deriv c (Alt r q) = mk_alt (deriv c r) (deriv c q)"
| "deriv c (Star r) = mk_seq (deriv c r) (Star r)"

fun re_matches :: "regex \<Rightarrow> string \<Rightarrow> bool" where
  "re_matches r [] = nullable r"
| "re_matches r (c # s) = re_matches (deriv c r) s"

lemma mk_seq_correct [simp]: "re_match (mk_seq r q) s \<longleftrightarrow> re_match (Seq r q) s"
  by (cases r) (auto simp: re_match_Seq)

lemma mk_alt_correct [simp]: "re_match (mk_alt r q) s \<longleftrightarrow> re_match r s \<or> re_match q s"
  by (cases "(r, q)" rule: mk_alt.cases) auto

lemma nullable_correct: "nullable r \<longleftrightarrow> re_match r []"
  by (induction r) (auto simp: re_match_Rng re_match_Seq)

lemma re_match_Star_Cons:
  "re_match (Star r) (c # s) \<longleftrightarrow> (\<exists>u v. s = u @ v \<and> re_match r (c # u) \<and> re_match (Star r) v)"
proof
  assume "re_match (Star r) (c # s)"
  then show "\<exists>u v. s = u @ v \<and> re_match r (c # u) \<and> re_match (Star r) v"
    by (induction "Star r" "c # s" arbitrary: rule: re_match.induct)
       (auto simp: append_eq_Cons_conv)
next
  assume "\<exists>u v. s = u @ v \<and> re_match r (c # u) \<and> re_match (Star r) v"
  then show "re_match (Star r) (c # s)"
    using re_match.star1 by fastforce
qed

lemma deriv_correct: "re_match (deriv c r) s \<longleftrightarrow> re_match r (c # s)"
proof (induction c r arbitrary: s rule: deriv.induct)
  case (6 c r q)
  then show ?case
    by (auto simp: re_match_Seq nullable_correct Cons_eq_append_conv)
qed (auto simp: re_match_Rng re_match_Seq re_match_Star_Cons)

theorem re_matches_correct: "re_matches r s \<longleftrightarrow> re_match r s"
  by (induction s arbitrary: r) (simp_all add: nullable_correct deriv_correct)

section \<open>Derived forms\<close>

definition opt :: "regex \<Rightarrow> regex" where
  "opt r = Alt Eps r"

definition plus_re :: "regex \<Rightarrow> regex" where
  "plus_re r = Seq r (Star r)"

fun rep_upto :: "nat \<Rightarrow> regex \<Rightarrow> regex" where
  "rep_upto 0 r = Eps"
| "rep_upto (Suc n) r = Alt Eps (Seq r (rep_upto n r))"

text \<open>\<open>rep r m k\<close> is the repetition \<open>r{m,m+k}\<close>.\<close>

fun rep :: "regex \<Rightarrow> nat \<Rightarrow> nat \<Rightarrow> regex" where
  "rep r 0 k = rep_upto k r"
| "rep r (Suc m) k = Seq r (rep r m k)"

lemma re_match_opt [simp]: "re_match (opt r) s \<longleftrightarrow> s = [] \<or> re_match r s"
  by (simp add: opt_def)

text \<open>Each repetition is a list of matches laid end to end.\<close>

lemma re_match_rep_upto:
  "re_match (rep_upto n r) s \<longleftrightarrow>
     (\<exists>ss. length ss \<le> n \<and> s = concat ss \<and> (\<forall>x\<in>set ss. re_match r x))"
proof (induction n arbitrary: s)
  case (Suc n)
  show ?case
  proof
    assume "re_match (rep_upto (Suc n) r) s"
    then consider "s = []" | u v where "s = u @ v" "re_match r u" "re_match (rep_upto n r) v"
      by (auto simp: re_match_Seq)
    then show "\<exists>ss. length ss \<le> Suc n \<and> s = concat ss \<and> (\<forall>x\<in>set ss. re_match r x)"
    proof cases
      case 2
      then obtain ss where "length ss \<le> n" "v = concat ss" "\<forall>x\<in>set ss. re_match r x"
        using Suc by blast
      with 2 show ?thesis by (intro exI [of _ "u # ss"]) auto
    qed (intro exI [of _ "[]"], simp)
  next
    assume "\<exists>ss. length ss \<le> Suc n \<and> s = concat ss \<and> (\<forall>x\<in>set ss. re_match r x)"
    then obtain ss where ss: "length ss \<le> Suc n" "s = concat ss" "\<forall>x\<in>set ss. re_match r x"
      by blast
    show "re_match (rep_upto (Suc n) r) s"
    proof (cases ss)
      case (Cons u us)
      with ss have "re_match (rep_upto n r) (concat us)" using Suc by auto
      with ss Cons show ?thesis by auto
    qed (use ss in auto)
  qed
qed simp

lemma re_match_rep:
  "re_match (rep r m k) s \<longleftrightarrow>
     (\<exists>ss. m \<le> length ss \<and> length ss \<le> m + k \<and> s = concat ss \<and> (\<forall>x\<in>set ss. re_match r x))"
proof (induction m arbitrary: s)
  case 0
  then show ?case by (simp add: re_match_rep_upto)
next
  case (Suc m)
  show ?case
  proof
    assume "re_match (rep r (Suc m) k) s"
    then obtain u v where uv: "s = u @ v" "re_match r u" "re_match (rep r m k) v"
      by (auto simp: re_match_Seq)
    then obtain ss where "m \<le> length ss" "length ss \<le> m + k" "v = concat ss"
      "\<forall>x\<in>set ss. re_match r x" using Suc by blast
    with uv show "\<exists>ss. Suc m \<le> length ss \<and> length ss \<le> Suc m + k \<and> s = concat ss \<and>
        (\<forall>x\<in>set ss. re_match r x)"
      by (intro exI [of _ "u # ss"]) auto
  next
    assume "\<exists>ss. Suc m \<le> length ss \<and> length ss \<le> Suc m + k \<and> s = concat ss \<and>
      (\<forall>x\<in>set ss. re_match r x)"
    then obtain u us where "m \<le> length us" "length us \<le> m + k" "s = u @ concat us"
      "re_match r u" "\<forall>x\<in>set us. re_match r x"
      by (auto simp: Suc_le_length_iff)
    with Suc show "re_match (rep r (Suc m) k) s" by auto
  qed
qed

lemma re_match_Star:
  "re_match (Star r) s \<longleftrightarrow> (\<exists>ss. s = concat ss \<and> (\<forall>x\<in>set ss. re_match r x))"
proof
  assume "re_match (Star r) s"
  then show "\<exists>ss. s = concat ss \<and> (\<forall>x\<in>set ss. re_match r x)"
  proof (induction "Star r" s rule: re_match.induct)
    case star0
    show ?case by (intro exI [of _ "[]"]) simp
  next
    case (star1 s t)
    then obtain ss where "t = concat ss" "\<forall>x\<in>set ss. re_match r x" by blast
    with star1 show ?case by (intro exI [of _ "s # ss"]) simp
  qed
next
  assume "\<exists>ss. s = concat ss \<and> (\<forall>x\<in>set ss. re_match r x)"
  then obtain ss where "s = concat ss" "\<forall>x\<in>set ss. re_match r x" by blast
  then show "re_match (Star r) s" by (induction ss arbitrary: s) auto
qed

lemma re_match_plus:
  "re_match (plus_re r) s \<longleftrightarrow> (\<exists>ss. ss \<noteq> [] \<and> s = concat ss \<and> (\<forall>x\<in>set ss. re_match r x))"
proof
  assume "re_match (plus_re r) s"
  then obtain u ss where "s = u @ concat ss" "re_match r u" "\<forall>x\<in>set ss. re_match r x"
    by (auto simp: plus_re_def re_match_Seq re_match_Star)
  then show "\<exists>ss. ss \<noteq> [] \<and> s = concat ss \<and> (\<forall>x\<in>set ss. re_match r x)"
    by (intro exI [of _ "u # ss"]) simp
next
  assume "\<exists>ss. ss \<noteq> [] \<and> s = concat ss \<and> (\<forall>x\<in>set ss. re_match r x)"
  then obtain u us where "s = u @ concat us" "re_match r u" "\<forall>x\<in>set us. re_match r x"
    by (auto simp: neq_Nil_conv)
  then show "re_match (plus_re r) s"
    unfolding plus_re_def using re_match_Star by blast
qed

end
