(* ===== verification/Domain.thy ===== *)
theory Domain
  imports Regex
begin

text \<open>
  Domain names: \<^verbatim>\<open>DOMAIN_REGEX\<close> of \<^verbatim>\<open>core/src/config.rs\<close>, \<^verbatim>\<open>validate_domain\<close> of
  \<^verbatim>\<open>core/src/lib.rs\<close> and the two argument parsers \<^verbatim>\<open>validate_domain\<close> and
  \<^verbatim>\<open>validate_domain_resolve\<close> of \<^verbatim>\<open>cli/src/cli.rs\<close>.

  The pattern is transcribed literally. Under \<^verbatim>\<open>(?i)\<close> the regex crate applies Unicode simple
  case folding, so a class that holds the letters s and k also holds U+017F (the long s) and
  U+212A (the Kelvin sign), and the literal s also matches U+017F; they are the literals
  \<open>long_s\<close> and \<open>kelvin\<close> of the prelude. The lemmas give the structure of an accepted name
  as labels of characters, an executable reference definition for ASCII names, the bytes that
  can occur, and closure under lower case.
\<close>

section \<open>The pattern\<close>

text \<open>\<^verbatim>\<open>[a-z]\<close>, \<^verbatim>\<open>[a-z0-9]\<close> and \<^verbatim>\<open>[a-z0-9-]\<close>, each under \<^verbatim>\<open>(?i)\<close>.\<close>

definition letter_re :: regex where
  "letter_re = Alt (Rng CHR ''a'' CHR ''z'') (Alt (Rng CHR ''A'' CHR ''Z'') (Alt (Lit long_s) (Lit kelvin)))"

definition alnum_re :: regex where
  "alnum_re = Alt letter_re (Rng CHR ''0'' CHR ''9'')"

definition ldh_re :: regex where
  "ldh_re = Alt alnum_re (Lit ''-'')"

text \<open>A literal letter under \<^verbatim>\<open>(?i)\<close>; \<^verbatim>\<open>localhost\<close> holds an s and no k.\<close>

definition iletter :: "char \<Rightarrow> regex" where
  "iletter c = Alt (Lit [c]) (Alt (Lit [char_of ((of_char c :: nat) - 32)])
     (if c = CHR ''s'' then Lit long_s else Nul))"

fun ilit :: "string \<Rightarrow> regex" where
  "ilit [] = Eps"
| "ilit (c # cs) = Seq (iletter c) (ilit cs)"

text \<open>\<^verbatim>\<open>[a-z0-9](?:[a-z0-9-]{0,61}[a-z0-9])?\<close>, then \<^verbatim>\<open>\.\<close>\<close>

definition label_re :: regex where
  "label_re = Seq alnum_re (opt (Seq (rep ldh_re 0 61) alnum_re))"

definition label_dot_re :: regex where
  "label_dot_re = Seq label_re (Lit ''.'')"

text \<open>\<^verbatim>\<open>[a-z]{2,63}\<close>\<close>

definition tld_re :: regex where
  "tld_re = rep letter_re 2 61"

definition DOMAIN_REGEX :: regex where
  "DOMAIN_REGEX =
     Alt (ilit ''localhost'') (Seq (opt (Lit ''*.'')) (Seq (plus_re label_dot_re) tld_re))"

text \<open>
  \<^verbatim>\<open>validate_domain\<close> of the core: fewer than 253 bytes and a match of the whole string (the
  pattern is anchored at both ends).
\<close>

definition validate_domain :: "string \<Rightarrow> bool" where
  "validate_domain domain = (length domain < 253 \<and> re_matches DOMAIN_REGEX domain)"

text \<open>The argument parsers of the command line; the error is the message's kind.\<close>

datatype domain_error = InvalidDomainName | WildcardNotAllowed string

definition cli_validate_domain :: "string \<Rightarrow> domain_error + string" where
  "cli_validate_domain s =
     (if validate_domain s then Inr (to_lowercase s) else Inl InvalidDomainName)"

text \<open>\<^verbatim>\<open>str::replace("*.", "example.")\<close>: every occurrence, left to right.\<close>

fun replace_star_dot :: "string \<Rightarrow> string \<Rightarrow> string" where
  "replace_star_dot w (a # b # s) =
     (if a = CHR ''*'' \<and> b = CHR ''.'' then w @ replace_star_dot w s
      else a # replace_star_dot w (b # s))"
| "replace_star_dot w s = s"

definition cli_validate_domain_resolve :: "string \<Rightarrow> domain_error + string" where
  "cli_validate_domain_resolve s =
     (case cli_validate_domain s of
        Inr domain \<Rightarrow>
          if starts_with domain ''*.'' then Inl (WildcardNotAllowed (replace_star_dot ''example.'' domain))
          else Inr domain
      | Inl err \<Rightarrow> Inl err)"

section \<open>Characters\<close>

definition is_letter :: "char \<Rightarrow> bool" where
  "is_letter c = (in_range CHR ''a'' CHR ''z'' c \<or> in_range CHR ''A'' CHR ''Z'' c)"

definition is_alnum :: "char \<Rightarrow> bool" where
  "is_alnum c = (is_letter c \<or> in_range CHR ''0'' CHR ''9'' c)"

definition is_ldh :: "char \<Rightarrow> bool" where
  "is_ldh c = (is_alnum c \<or> c = CHR ''-'')"

lemma re_match_letter:
  "re_match letter_re t \<longleftrightarrow> (\<exists>c. t = [c] \<and> is_letter c) \<or> t = long_s \<or> t = kelvin"
  by (auto simp: letter_re_def re_match_Rng is_letter_def)

lemma re_match_alnum:
  "re_match alnum_re t \<longleftrightarrow> (\<exists>c. t = [c] \<and> is_alnum c) \<or> t = long_s \<or> t = kelvin"
  by (auto simp: alnum_re_def re_match_letter re_match_Rng is_alnum_def)

lemma re_match_ldh:
  "re_match ldh_re t \<longleftrightarrow> (\<exists>c. t = [c] \<and> is_ldh c) \<or> t = long_s \<or> t = kelvin"
  by (auto simp: ldh_re_def re_match_alnum is_ldh_def)

lemmas re_match_class = re_match_letter re_match_alnum re_match_ldh

lemma class_chain: "is_letter c \<Longrightarrow> is_alnum c" "is_alnum c \<Longrightarrow> is_ldh c"
  by (simp_all add: is_alnum_def is_ldh_def)

lemma is_ldh_ascii: "is_ldh c \<Longrightarrow> (of_char c :: nat) < 128"
  by (auto simp: is_ldh_def is_alnum_def is_letter_def in_range_def)

lemma is_ldh_no_dot: "is_ldh c \<Longrightarrow> c \<noteq> CHR ''.''"
  by (auto simp: is_ldh_def is_alnum_def is_letter_def in_range_def)

lemma not_ascii_special: "\<not> ascii long_s" "\<not> ascii kelvin"
  by (simp_all add: long_s_def kelvin_def)

section \<open>The structure of an accepted name\<close>

text \<open>A label and a top level domain as lists of characters, each one or more bytes.\<close>

definition label_toks :: "string list \<Rightarrow> bool" where
  "label_toks ts = (ts \<noteq> [] \<and> length ts \<le> 63 \<and> re_match alnum_re (hd ts) \<and>
     re_match alnum_re (last ts) \<and> (\<forall>t\<in>set ts. re_match ldh_re t))"

definition tld_toks :: "string list \<Rightarrow> bool" where
  "tld_toks ts = (2 \<le> length ts \<and> length ts \<le> 63 \<and> (\<forall>t\<in>set ts. re_match letter_re t))"

lemma alnum_imp_ldh: "re_match alnum_re t \<Longrightarrow> re_match ldh_re t"
  by (simp add: ldh_re_def)

lemma re_match_label: "re_match label_re s \<longleftrightarrow> (\<exists>ts. label_toks ts \<and> s = concat ts)"
proof
  assume "re_match label_re s"
  then consider (one) "re_match alnum_re s"
    | (more) u ss v where "s = u @ concat ss @ v" "re_match alnum_re u" "re_match alnum_re v"
        "length ss \<le> 61" "\<forall>x\<in>set ss. re_match ldh_re x"
    by (auto simp: label_re_def re_match_Seq re_match_rep_upto)
  then show "\<exists>ts. label_toks ts \<and> s = concat ts"
  proof cases
    case one
    then have "label_toks [s]" by (simp add: label_toks_def alnum_imp_ldh)
    then show ?thesis by (intro exI [of _ "[s]"]) simp
  next
    case more
    then have "label_toks (u # ss @ [v])" by (auto simp: label_toks_def alnum_imp_ldh)
    with more(1) show ?thesis by (intro exI [of _ "u # ss @ [v]"]) simp
  qed
next
  assume "\<exists>ts. label_toks ts \<and> s = concat ts"
  then obtain ts where ts: "label_toks ts" "s = concat ts" by blast
  then obtain u us where u: "ts = u # us" by (auto simp: label_toks_def neq_Nil_conv)
  show "re_match label_re s"
  proof (cases us rule: rev_cases)
    case Nil
    with ts u show ?thesis by (auto simp: label_toks_def label_re_def re_match_Seq)
  next
    case (snoc ss v)
    with ts u have "re_match (rep ldh_re 0 61) (concat ss)"
      by (auto simp: label_toks_def re_match_rep_upto)
    moreover from ts u snoc have "re_match alnum_re u" "re_match alnum_re v"
      by (auto simp: label_toks_def)
    ultimately have "re_match label_re (u @ concat ss @ v)"
      by (auto simp: label_re_def re_match_Seq)
    with ts u snoc show ?thesis by simp
  qed
qed

lemma re_match_label_dot:
  "re_match label_dot_re s \<longleftrightarrow> (\<exists>ts. label_toks ts \<and> s = concat ts @ ''.'')"
  by (auto simp: label_dot_re_def re_match_Seq re_match_label)

lemma re_match_tld: "re_match tld_re s \<longleftrightarrow> (\<exists>ts. tld_toks ts \<and> s = concat ts)"
proof -
  have "re_match tld_re s \<longleftrightarrow> re_match (rep letter_re 2 61) s"
    by (simp only: tld_re_def)
  then show ?thesis by (auto simp: re_match_rep tld_toks_def)
qed

definition dotted :: "string list list \<Rightarrow> string" where
  "dotted ls = concat (map (\<lambda>l. concat l @ ''.'') ls)"

lemma re_match_labels:
  "re_match (plus_re label_dot_re) s \<longleftrightarrow> (\<exists>ls. ls \<noteq> [] \<and> list_all label_toks ls \<and> s = dotted ls)"
proof
  assume "re_match (plus_re label_dot_re) s"
  then obtain ss where ss: "ss \<noteq> []" "s = concat ss" "\<forall>x\<in>set ss. re_match label_dot_re x"
    by (auto simp: re_match_plus)
  from ss(3) have "\<exists>ls. list_all label_toks ls \<and> ss = map (\<lambda>l. concat l @ ''.'') ls"
  proof (induction ss)
    case (Cons x ss)
    then obtain ls where "list_all label_toks ls" "ss = map (\<lambda>l. concat l @ ''.'') ls" by auto
    moreover from Cons.prems obtain t where "label_toks t" "x = concat t @ ''.''"
      by (auto simp: re_match_label_dot)
    ultimately show ?case by (intro exI [of _ "t # ls"]) simp
  qed simp
  with ss show "\<exists>ls. ls \<noteq> [] \<and> list_all label_toks ls \<and> s = dotted ls"
    by (auto simp: dotted_def)
next
  assume "\<exists>ls. ls \<noteq> [] \<and> list_all label_toks ls \<and> s = dotted ls"
  then obtain ls where "ls \<noteq> []" "list_all label_toks ls" "s = dotted ls" by blast
  then show "re_match (plus_re label_dot_re) s"
    unfolding re_match_plus
    by (intro exI [of _ "map (\<lambda>l. concat l @ ''.'') ls"])
       (auto simp: dotted_def re_match_label_dot list_all_iff)
qed

text \<open>The dotted part of an accepted name: at least one label, then the top level domain.\<close>

definition name_toks :: "string list list \<Rightarrow> string list \<Rightarrow> bool" where
  "name_toks ls tld = (ls \<noteq> [] \<and> list_all label_toks ls \<and> tld_toks tld)"

lemma re_match_DOMAIN:
  "re_match DOMAIN_REGEX d \<longleftrightarrow> re_match (ilit ''localhost'') d \<or>
     (\<exists>w ls tld. (w = [] \<or> w = ''*.'') \<and> name_toks ls tld \<and> d = w @ dotted ls @ concat tld)"
proof -
  have "re_match DOMAIN_REGEX d \<longleftrightarrow> re_match (ilit ''localhost'') d \<or>
     (\<exists>w s t. (w = [] \<or> w = ''*.'') \<and> re_match (plus_re label_dot_re) s \<and> re_match tld_re t \<and>
        d = w @ s @ t)"
    by (simp only: DOMAIN_REGEX_def re_match_Alt re_match_Seq re_match_opt re_match_Lit) blast
  then show ?thesis by (simp only: re_match_labels re_match_tld name_toks_def) blast
qed

section \<open>A reference definition for ASCII names\<close>

text \<open>
  What the pattern means for a name in ASCII: split it at the dots; every part but the last is
  a host label of at most 63 letters, digits and inner hyphens, and the last has 2 to 63
  letters. One leading \<^verbatim>\<open>*.\<close> is allowed, and \<^verbatim>\<open>localhost\<close> in any case.
\<close>

fun split_dot :: "string \<Rightarrow> string list" where
  "split_dot [] = [[]]"
| "split_dot (c # cs) =
     (if c = CHR ''.'' then [] # split_dot cs
      else (c # hd (split_dot cs)) # tl (split_dot cs))"

definition label_ok :: "string \<Rightarrow> bool" where
  "label_ok l = (l \<noteq> [] \<and> length l \<le> 63 \<and> is_alnum (hd l) \<and> is_alnum (last l) \<and> list_all is_ldh l)"

definition tld_ok :: "string \<Rightarrow> bool" where
  "tld_ok t = (2 \<le> length t \<and> length t \<le> 63 \<and> list_all is_letter t)"

definition name_ok :: "string \<Rightarrow> bool" where
  "name_ok d = (2 \<le> length (split_dot d) \<and> list_all label_ok (butlast (split_dot d)) \<and>
     tld_ok (last (split_dot d)))"

definition domain_ok :: "string \<Rightarrow> bool" where
  "domain_ok d = (length d < 253 \<and> (to_ascii_lowercase d = ''localhost'' \<or> name_ok d \<or>
     (case strip_prefix ''*.'' d of Some t \<Rightarrow> name_ok t | None \<Rightarrow> False)))"

lemma split_dot_ne [simp]: "split_dot s \<noteq> []"
  by (cases s) auto

lemma split_dot_no_dot: "CHR ''.'' \<notin> set t \<Longrightarrow> split_dot t = [t]"
  by (induction t) auto

lemma split_dot_append: "CHR ''.'' \<notin> set l \<Longrightarrow> split_dot (l @ CHR ''.'' # s) = l # split_dot s"
  by (induction l) auto

lemma split_dot_join:
  "\<forall>l\<in>set ls. CHR ''.'' \<notin> set l \<Longrightarrow> CHR ''.'' \<notin> set t \<Longrightarrow>
   split_dot (concat (map (\<lambda>l. l @ ''.'') ls) @ t) = ls @ [t]"
  by (induction ls) (simp_all add: split_dot_no_dot split_dot_append)

lemma split_dot_inverse:
  "concat (map (\<lambda>l. l @ ''.'') (butlast (split_dot s))) @ last (split_dot s) = s"
proof (induction s)
  case (Cons c cs)
  obtain l ls where l: "split_dot cs = l # ls" by (cases "split_dot cs") auto
  with Cons show ?case by (cases ls) auto
qed simp

lemma label_ok_no_dot: "label_ok l \<Longrightarrow> CHR ''.'' \<notin> set l"
  by (auto simp: label_ok_def list_all_iff dest: is_ldh_no_dot)

lemma tld_ok_no_dot: "tld_ok t \<Longrightarrow> CHR ''.'' \<notin> set t"
  by (auto simp: tld_ok_def list_all_iff dest: class_chain is_ldh_no_dot)

lemma name_ok_iff:
  "name_ok d \<longleftrightarrow> (\<exists>ls t. ls \<noteq> [] \<and> list_all label_ok ls \<and> tld_ok t \<and>
     d = concat (map (\<lambda>l. l @ ''.'') ls) @ t)"
proof
  assume "name_ok d"
  then show "\<exists>ls t. ls \<noteq> [] \<and> list_all label_ok ls \<and> tld_ok t \<and>
      d = concat (map (\<lambda>l. l @ ''.'') ls) @ t"
    using split_dot_inverse [of d] unfolding name_ok_def
    by (intro exI [of _ "butlast (split_dot d)"] exI [of _ "last (split_dot d)"])
       (auto simp flip: length_0_conv)
next
  assume "\<exists>ls t. ls \<noteq> [] \<and> list_all label_ok ls \<and> tld_ok t \<and>
      d = concat (map (\<lambda>l. l @ ''.'') ls) @ t"
  then obtain ls t where lt: "ls \<noteq> []" "list_all label_ok ls" "tld_ok t"
    "d = concat (map (\<lambda>l. l @ ''.'') ls) @ t" by blast
  then have "split_dot d = ls @ [t]"
    by (simp add: split_dot_join label_ok_no_dot tld_ok_no_dot list_all_iff)
  with lt show "name_ok d" by (cases ls) (simp_all add: name_ok_def)
qed

text \<open>An ASCII string matched character by character is its own list of characters.\<close>

lemma ascii_concatD: "ascii (concat ts) \<Longrightarrow> t \<in> set ts \<Longrightarrow> ascii t"
  by (induction ts) auto

lemma ascii_singletons:
  assumes "ascii (concat ts)" and "\<forall>t\<in>set ts. re_match ldh_re t"
  shows "ts = map (\<lambda>c. [c]) (concat ts)"
  using assms
proof (induction ts)
  case (Cons t ts)
  then have "ascii t" "re_match ldh_re t" by auto
  then obtain c where "t = [c]" by (auto simp: re_match_ldh not_ascii_special)
  with Cons show ?case by simp
qed simp

lemma special_len: "long_s \<noteq> [c]" "kelvin \<noteq> [c]" "[c] \<noteq> long_s" "[c] \<noteq> kelvin"
  by (simp_all add: long_s_def kelvin_def)

lemma label_toks_singletons: "label_toks (map (\<lambda>c. [c]) l) \<longleftrightarrow> label_ok l"
  by (auto simp: label_toks_def label_ok_def re_match_class special_len list_all_iff
      hd_map last_map)

lemma tld_toks_singletons: "tld_toks (map (\<lambda>c. [c]) t) \<longleftrightarrow> tld_ok t"
  by (auto simp: tld_toks_def tld_ok_def re_match_class special_len list_all_iff)

lemma label_toks_ascii: "label_toks ts \<Longrightarrow> ascii (concat ts) \<Longrightarrow> label_ok (concat ts)"
  using ascii_singletons [of ts] label_toks_singletons [of "concat ts"]
  by (simp add: label_toks_def)

lemma letter_imp_ldh: "re_match letter_re t \<Longrightarrow> re_match ldh_re t"
  by (simp add: ldh_re_def alnum_re_def)

lemma tld_toks_ascii: "tld_toks ts \<Longrightarrow> ascii (concat ts) \<Longrightarrow> tld_ok (concat ts)"
  using ascii_singletons [of ts] tld_toks_singletons [of "concat ts"]
  by (simp add: tld_toks_def letter_imp_ldh)

lemma dotted_map: "dotted ls = concat (map (\<lambda>l. l @ ''.'') (map concat ls))"
  by (simp add: dotted_def comp_def)

lemma concat_singletons [simp]: "concat (map (\<lambda>c. [c]) s) = s"
  by (induction s) auto

lemma dotted_ascii: "ascii (dotted ls) \<Longrightarrow> l \<in> set ls \<Longrightarrow> ascii (concat l)"
  by (induction ls) (auto simp: dotted_def)

lemma name_toks_ascii:
  assumes "ascii d"
  shows "(\<exists>ls tld. name_toks ls tld \<and> d = dotted ls @ concat tld) \<longleftrightarrow> name_ok d"
proof
  assume "\<exists>ls tld. name_toks ls tld \<and> d = dotted ls @ concat tld"
  then obtain ls tld where d: "name_toks ls tld" "d = dotted ls @ concat tld" by blast
  with assms have "list_all label_ok (map concat ls)" "tld_ok (concat tld)" "map concat ls \<noteq> []"
    by (auto simp: name_toks_def list_all_iff intro: label_toks_ascii tld_toks_ascii dest: dotted_ascii)
  with d(2) show "name_ok d" unfolding name_ok_iff dotted_map by blast
next
  assume "name_ok d"
  then obtain ls t where lt: "ls \<noteq> []" "list_all label_ok ls" "tld_ok t"
    "d = concat (map (\<lambda>l. l @ ''.'') ls) @ t" unfolding name_ok_iff by blast
  let ?sing = "map (\<lambda>c. [c])"
  have "name_toks (map ?sing ls) (?sing t)"
    using lt by (auto simp: name_toks_def list_all_iff label_toks_singletons tld_toks_singletons)
  moreover have "d = dotted (map ?sing ls) @ concat (?sing t)"
    using lt(4) by (simp add: dotted_def comp_def)
  ultimately show "\<exists>ls tld. name_toks ls tld \<and> d = dotted ls @ concat tld" by blast
qed

lemma lower_char_eq_lower:
  assumes "97 \<le> (of_char c :: nat)" "(of_char c :: nat) \<le> 122"
  shows "lower_char e = c \<longleftrightarrow> e = c \<or> e = char_of ((of_char c :: nat) - 32)"
proof
  assume "lower_char e = c"
  then show "e = c \<or> e = char_of ((of_char c :: nat) - 32)"
    using of_char_lower_char [of e] by (auto split: if_splits)
next
  assume "e = c \<or> e = char_of ((of_char c :: nat) - 32)"
  then show "lower_char e = c"
  proof
    assume e: "e = char_of ((of_char c :: nat) - 32)"
    have "(of_char e :: nat) = of_char c - 32"
      using assms unfolding e by (simp add: of_char_of)
    with assms have "ascii_upper e" "(of_char e :: nat) + 32 = of_char c"
      unfolding ascii_upper_def by linarith+
    then show ?thesis by (simp add: lower_char_def)
  qed (use assms in \<open>simp add: lower_char_def ascii_upper_def\<close>)
qed

lemma re_match_iletter:
  "re_match (iletter c) u \<longleftrightarrow>
     u = [c] \<or> u = [char_of ((of_char c :: nat) - 32)] \<or> (c = CHR ''s'' \<and> u = long_s)"
  by (auto simp: iletter_def)

lemma ilit_Cons_ascii:
  assumes "ascii (e # es)"
  shows "re_match (ilit (c # w)) (e # es) \<longleftrightarrow>
     (e = c \<or> e = char_of ((of_char c :: nat) - 32)) \<and> re_match (ilit w) es"
proof
  assume "re_match (ilit (c # w)) (e # es)"
  then obtain u v where uv: "e # es = u @ v" "re_match (iletter c) u" "re_match (ilit w) v"
    by (auto simp: re_match_Seq)
  with assms have "u \<noteq> long_s" by (auto simp: long_s_def)
  with uv show "(e = c \<or> e = char_of ((of_char c :: nat) - 32)) \<and> re_match (ilit w) es"
    by (auto simp: re_match_iletter)
next
  assume "(e = c \<or> e = char_of ((of_char c :: nat) - 32)) \<and> re_match (ilit w) es"
  then have "re_match (iletter c) [e]" "re_match (ilit w) es" by (auto simp: re_match_iletter)
  from re_match.seq [OF this] show "re_match (ilit (c # w)) (e # es)" by simp
qed

lemma ilit_ascii:
  "ascii d \<Longrightarrow> list_all (\<lambda>c. in_range CHR ''a'' CHR ''z'' c) w \<Longrightarrow>
   re_match (ilit w) d \<longleftrightarrow> to_ascii_lowercase d = w"
proof (induction w arbitrary: d)
  case (Cons c w)
  have up: "lower_char e = c \<longleftrightarrow> e = c \<or> e = char_of ((of_char c :: nat) - 32)" for e
    using Cons.prems(2) by (simp add: lower_char_eq_lower in_range_def)
  show ?case
  proof (cases d)
    case (Cons e es)
    have "re_match (ilit (c # w)) d \<longleftrightarrow>
        (e = c \<or> e = char_of ((of_char c :: nat) - 32)) \<and> re_match (ilit w) es"
      using Cons Cons.prems(1) ilit_Cons_ascii by simp
    also have "\<dots> \<longleftrightarrow> lower_char e = c \<and> to_ascii_lowercase es = w"
      using Cons.IH [of es] Cons.prems \<open>d = e # es\<close> up by simp
    finally show ?thesis using Cons by (simp add: to_ascii_lowercase_def)
  qed (auto simp: re_match_Seq re_match_iletter to_ascii_lowercase_def long_s_def)
qed (simp add: to_ascii_lowercase_def)

lemma re_match_DOMAIN_ascii:
  assumes "ascii d"
  shows "re_match DOMAIN_REGEX d \<longleftrightarrow> to_ascii_lowercase d = ''localhost'' \<or> name_ok d \<or>
     (case strip_prefix ''*.'' d of Some t \<Rightarrow> name_ok t | None \<Rightarrow> False)"
proof -
  have "re_match (ilit ''localhost'') d \<longleftrightarrow> to_ascii_lowercase d = ''localhost''"
    by (rule ilit_ascii [OF assms]) (simp add: in_range_def)
  moreover have "(\<exists>ls tld. name_toks ls tld \<and> d = ''*.'' @ dotted ls @ concat tld) \<longleftrightarrow>
      (case strip_prefix ''*.'' d of Some t \<Rightarrow> name_ok t | None \<Rightarrow> False)"
  proof (cases "strip_prefix ''*.'' d")
    case None
    then have "\<not> prefix ''*.'' d" by (simp only: strip_prefix_None simp_thms)
    with None show ?thesis by auto
  next
    case (Some t)
    then have "d = ''*.'' @ t" by (simp only: strip_prefix_iff)
    with Some name_toks_ascii [of t] assms show ?thesis by auto
  qed
  moreover have "re_match DOMAIN_REGEX d \<longleftrightarrow> re_match (ilit ''localhost'') d \<or>
      (\<exists>ls tld. name_toks ls tld \<and> d = dotted ls @ concat tld) \<or>
      (\<exists>ls tld. name_toks ls tld \<and> d = ''*.'' @ dotted ls @ concat tld)"
    unfolding re_match_DOMAIN by (metis append_Nil)
  ultimately show ?thesis
    using name_toks_ascii [OF assms] by argo
qed

section \<open>Lower case and the bytes of an accepted name\<close>

text \<open>A run of ASCII characters, or one of the two others that can occur.\<close>

definition uchar :: "string \<Rightarrow> bool" where
  "uchar t = (ascii t \<or> t = long_s \<or> t = kelvin)"

lemma ldh_uchar: "re_match ldh_re t \<Longrightarrow> uchar t"
  by (auto simp: re_match_ldh uchar_def dest: is_ldh_ascii)

lemma to_lowercase_Cons:
  "(of_char c :: nat) \<noteq> 226 \<Longrightarrow> to_lowercase (c # s) = lower_char c # to_lowercase s"
  by (cases s rule: list.exhaust [case_product list.exhaust, of _ "tl s"]) (auto simp: kelvin_def)

lemma to_lowercase_long_s: "to_lowercase (long_s @ s) = long_s @ to_lowercase s"
  by (simp add: long_s_def to_lowercase_Cons lower_char_high)

lemma to_lowercase_kelvin: "to_lowercase (kelvin @ s) = CHR ''k'' # to_lowercase s"
  by (simp add: kelvin_def)

lemma to_lowercase_ascii_append: "ascii t \<Longrightarrow> to_lowercase (t @ s) = map lower_char t @ to_lowercase s"
  by (induction t) (simp_all add: to_lowercase_Cons)

lemma to_lowercase_tok:
  assumes "uchar t"
  shows "to_lowercase (t @ s) = to_lowercase t @ to_lowercase s"
  using assms to_lowercase_ascii_append [of t s] to_lowercase_ascii_append [of t "[]"]
    to_lowercase_long_s [of s] to_lowercase_long_s [of "[]"]
    to_lowercase_kelvin [of s] to_lowercase_kelvin [of "[]"]
  by (auto simp: uchar_def)

lemma to_lowercase_toks:
  "\<forall>t\<in>set ts. uchar t \<Longrightarrow>
   to_lowercase (concat ts @ s) = concat (map to_lowercase ts) @ to_lowercase s"
  by (induction ts) (simp_all add: to_lowercase_tok)

lemma lower_class:
  "is_letter c \<Longrightarrow> is_letter (lower_char c)"
  "is_alnum c \<Longrightarrow> is_alnum (lower_char c)"
  "is_ldh c \<Longrightarrow> is_ldh (lower_char c)"
proof -
  have *: "is_letter (lower_char c)" if "is_letter c" for c
    using that of_char_lower_char [of c]
    by (auto simp: is_letter_def in_range_def ascii_upper_def split: if_splits)
  have keep: "\<not> is_letter c \<Longrightarrow> lower_char c = c" for c
    by (auto simp: is_letter_def in_range_def lower_char_def ascii_upper_def)
  show "is_letter c \<Longrightarrow> is_letter (lower_char c)" by (rule *)
  show "is_alnum c \<Longrightarrow> is_alnum (lower_char c)"
    using * keep by (cases "is_letter c") (simp_all add: is_alnum_def)
  show "is_ldh c \<Longrightarrow> is_ldh (lower_char c)"
    using * keep by (cases "is_letter c") (simp_all add: is_ldh_def is_alnum_def)
qed

lemma lower_special: "to_lowercase long_s = long_s" "to_lowercase kelvin = ''k''"
  using to_lowercase_long_s [of "[]"] to_lowercase_kelvin [of "[]"] by simp_all

lemma re_match_lower:
  "re_match letter_re t \<Longrightarrow> re_match letter_re (to_lowercase t)"
  "re_match alnum_re t \<Longrightarrow> re_match alnum_re (to_lowercase t)"
  "re_match ldh_re t \<Longrightarrow> re_match ldh_re (to_lowercase t)"
proof -
  have k: "is_letter CHR ''k''" by (simp add: is_letter_def in_range_def)
  show "re_match letter_re t \<Longrightarrow> re_match letter_re (to_lowercase t)"
    "re_match alnum_re t \<Longrightarrow> re_match alnum_re (to_lowercase t)"
    "re_match ldh_re t \<Longrightarrow> re_match ldh_re (to_lowercase t)"
    using k class_chain by (auto simp: re_match_class lower_special lower_class)
qed

lemma label_toks_lower: "label_toks l \<Longrightarrow> label_toks (map to_lowercase l)"
  by (auto simp: label_toks_def hd_map last_map re_match_lower)

lemma tld_toks_lower: "tld_toks l \<Longrightarrow> tld_toks (map to_lowercase l)"
  by (auto simp: tld_toks_def re_match_lower)

lemma label_uchar: "label_toks l \<Longrightarrow> t \<in> set l \<Longrightarrow> uchar t"
  by (simp add: label_toks_def ldh_uchar)

lemma tld_uchar: "tld_toks l \<Longrightarrow> t \<in> set l \<Longrightarrow> uchar t"
  by (simp add: tld_toks_def letter_imp_ldh ldh_uchar)

lemma to_lowercase_dotted:
  "list_all label_toks ls \<Longrightarrow>
   to_lowercase (dotted ls @ s) = dotted (map (map to_lowercase) ls) @ to_lowercase s"
proof (induction ls)
  case (Cons l ls)
  then have "to_lowercase (concat l @ CHR ''.'' # dotted ls @ s) =
      concat (map to_lowercase l) @ to_lowercase (CHR ''.'' # dotted ls @ s)"
    by (intro to_lowercase_toks) (auto dest: label_uchar)
  with Cons show ?case
    by (simp add: dotted_def to_lowercase_Cons lower_char_def ascii_upper_def)
qed (simp add: dotted_def)

lemma name_toks_lower:
  assumes "name_toks ls tld"
  shows "name_toks (map (map to_lowercase) ls) (map to_lowercase tld)"
    and "to_lowercase (dotted ls @ concat tld) =
      dotted (map (map to_lowercase) ls) @ concat (map to_lowercase tld)"
proof -
  show "name_toks (map (map to_lowercase) ls) (map to_lowercase tld)"
    using assms by (auto simp: name_toks_def list_all_iff label_toks_lower tld_toks_lower)
  have "to_lowercase (concat tld) = concat (map to_lowercase tld)"
    using to_lowercase_toks [of tld "[]"] assms by (auto simp: name_toks_def dest: tld_uchar)
  with assms show "to_lowercase (dotted ls @ concat tld) =
      dotted (map (map to_lowercase) ls) @ concat (map to_lowercase tld)"
    by (simp add: name_toks_def to_lowercase_dotted)
qed

lemma ilit_lower:
  "list_all (\<lambda>c. in_range CHR ''a'' CHR ''z'' c \<and> c \<noteq> CHR ''k'') w \<Longrightarrow> re_match (ilit w) d \<Longrightarrow>
   re_match (ilit w) (to_lowercase d)"
proof (induction w arbitrary: d)
  case (Cons c w)
  then obtain u v where uv: "d = u @ v" "re_match (iletter c) u" "re_match (ilit w) v"
    by (auto simp: re_match_Seq)
  from Cons.prems(1) have rng: "97 \<le> (of_char c :: nat)" "(of_char c :: nat) \<le> 122"
    by (auto simp: in_range_def)
  have one: "to_lowercase [e] = [c]" if "e = c \<or> e = char_of ((of_char c :: nat) - 32)" for e
    using lower_char_eq_lower [OF rng, of e] that by simp
  from uv(2) consider "u = [c]" | "u = [char_of ((of_char c :: nat) - 32)]" | "u = long_s"
    by (auto simp: re_match_iletter)
  then have "uchar u"
  proof cases
    case 2
    have "(of_char (char_of ((of_char c :: nat) - 32) :: char) :: nat) < 128" using rng by simp
    with 2 show ?thesis by (simp add: uchar_def)
  qed (use rng in \<open>simp_all add: uchar_def\<close>)
  moreover have "re_match (iletter c) (to_lowercase u)"
    using uv(2) one unfolding re_match_iletter by (metis lower_special(1))
  moreover have "re_match (ilit w) (to_lowercase v)"
    using Cons.IH Cons.prems(1) uv(3) by simp
  ultimately show ?case using uv(1) by (simp add: to_lowercase_tok re_match.seq)
qed simp

lemma length_to_lowercase: "length (to_lowercase s) \<le> length s"
  by (induction s rule: to_lowercase.induct) auto

lemma re_match_DOMAIN_lower:
  assumes "re_match DOMAIN_REGEX d"
  shows "re_match DOMAIN_REGEX (to_lowercase d)"
proof -
  from assms consider (host) "re_match (ilit ''localhost'') d"
    | (name) w ls tld where "w = [] \<or> w = ''*.''" "name_toks ls tld" "d = w @ dotted ls @ concat tld"
    unfolding re_match_DOMAIN by blast
  then show ?thesis
  proof cases
    case host
    then have "re_match (ilit ''localhost'') (to_lowercase d)"
      by (intro ilit_lower) (simp_all add: in_range_def)
    then show ?thesis unfolding re_match_DOMAIN ..
  next
    case name
    have "to_lowercase d = w @ to_lowercase (dotted ls @ concat tld)"
      using name(1,3) by (auto simp: to_lowercase_Cons lower_char_def ascii_upper_def)
    with name(1) name_toks_lower [OF name(2)] show ?thesis unfolding re_match_DOMAIN by metis
  qed
qed

text \<open>
  Whatever holds of every string an atom of the expression can match holds of the pieces of a
  match: used for the bytes of a name and for splitting it into characters.
\<close>

fun re_atoms :: "(string \<Rightarrow> bool) \<Rightarrow> regex \<Rightarrow> bool" where
  "re_atoms P Nul = True"
| "re_atoms P Eps = True"
| "re_atoms P (Rng lo hi) = (\<forall>c. in_range lo hi c \<longrightarrow> P [c])"
| "re_atoms P (Lit s) = P s"
| "re_atoms P (Seq r q) = (re_atoms P r \<and> re_atoms P q)"
| "re_atoms P (Alt r q) = (re_atoms P r \<and> re_atoms P q)"
| "re_atoms P (Star r) = re_atoms P r"

lemma re_atoms_pieces:
  "re_match r s \<Longrightarrow> re_atoms P r \<Longrightarrow> \<exists>ts. s = concat ts \<and> (\<forall>t\<in>set ts. P t)"
proof (induction rule: re_match.induct)
  case eps
  show ?case by (intro exI [of _ "[]"]) simp
next
  case (rng lo hi c)
  then show ?case by (intro exI [of _ "[[c]]"]) simp
next
  case (lit s)
  then show ?case by (intro exI [of _ "[s]"]) simp
next
  case (seq r s q t)
  then obtain ss ts where "s = concat ss" "t = concat ts" "\<forall>t\<in>set (ss @ ts). P t" by fastforce
  then show ?case by (intro exI [of _ "ss @ ts"]) simp
next
  case (star0 r)
  show ?case by (intro exI [of _ "[]"]) simp
next
  case (star1 r s t)
  then obtain ss ts where "s = concat ss" "t = concat ts" "\<forall>t\<in>set (ss @ ts). P t" by fastforce
  then show ?case by (intro exI [of _ "ss @ ts"]) simp
qed simp_all

lemma re_atoms_rep_upto [simp]: "re_atoms P r \<Longrightarrow> re_atoms P (rep_upto n r)"
  by (induction n) simp_all

lemma re_atoms_rep: "re_atoms P r \<Longrightarrow> re_atoms P (rep r m k)"
  by (induction m) simp_all

lemma re_atoms_ilit:
  "re_atoms P (ilit w)"
  if "\<forall>c\<in>set w. P [c] \<and> P [char_of ((of_char c :: nat) - 32)]" "P long_s"
  using that by (induction w) (simp_all add: iletter_def)

lemma re_atoms_label_dot:
  assumes "\<And>c. is_ldh c \<Longrightarrow> P [c]" "P long_s" "P kelvin" "P ''.''"
  shows "re_atoms P label_dot_re" "re_atoms P tld_re"
proof -
  have l: "re_atoms P letter_re"
    using assms class_chain by (simp add: letter_re_def is_letter_def)
  then have a: "re_atoms P alnum_re"
    using assms class_chain(2) by (simp add: alnum_re_def is_alnum_def)
  then have "re_atoms P ldh_re"
    using assms by (simp add: ldh_re_def is_ldh_def)
  then have "re_atoms P (rep ldh_re 0 61)" by (rule re_atoms_rep)
  with a assms(4) show "re_atoms P label_dot_re"
    by (simp only: label_dot_re_def label_re_def opt_def re_atoms.simps simp_thms)
  show "re_atoms P tld_re"
    unfolding tld_re_def by (rule re_atoms_rep [OF l])
qed

lemma re_atoms_DOMAIN:
  assumes "\<And>c. is_ldh c \<Longrightarrow> P [c]" "P long_s" "P kelvin" "P ''.''" "P ''*.''"
  shows "re_atoms P DOMAIN_REGEX"
proof -
  have "re_atoms P (ilit ''localhost'')"
    using assms by (intro re_atoms_ilit)
      (simp_all add: is_ldh_def is_alnum_def is_letter_def in_range_def)
  with re_atoms_label_dot [of P] assms show ?thesis
    by (simp only: DOMAIN_REGEX_def plus_re_def opt_def re_atoms.simps simp_thms)
qed

lemma uchar_pieces:
  assumes "re_match DOMAIN_REGEX d"
  shows "\<exists>ts. d = concat ts \<and> (\<forall>t\<in>set ts. uchar t)"
  using assms by (rule re_atoms_pieces) (rule re_atoms_DOMAIN; simp add: uchar_def is_ldh_ascii)

lemma uchar_lower: "uchar t \<Longrightarrow> uchar (to_lowercase t)"
  and uchar_lower_idem: "uchar t \<Longrightarrow> to_lowercase (to_lowercase t) = to_lowercase t"
proof -
  have a: "ascii (to_ascii_lowercase t)" if "ascii t" for t
    using that by (induction t)
      (auto simp: to_ascii_lowercase_def of_char_lower_char ascii_upper_def)
  show "uchar t \<Longrightarrow> uchar (to_lowercase t)"
    using a by (auto simp: uchar_def to_lowercase_ascii lower_special)
  show "uchar t \<Longrightarrow> to_lowercase (to_lowercase t) = to_lowercase t"
    using a by (auto simp: uchar_def to_lowercase_ascii lower_special lower_char_def ascii_upper_def)
qed

lemma to_lowercase_idem_DOMAIN:
  assumes "re_match DOMAIN_REGEX d"
  shows "to_lowercase (to_lowercase d) = to_lowercase d"
proof -
  obtain ts where ts: "d = concat ts" "\<forall>t\<in>set ts. uchar t" using uchar_pieces [OF assms] by blast
  then have "to_lowercase d = concat (map to_lowercase ts)"
    using to_lowercase_toks [of ts "[]"] by simp
  moreover have "to_lowercase (concat (map to_lowercase ts)) = concat (map to_lowercase ts)"
    using to_lowercase_toks [of "map to_lowercase ts" "[]"] ts(2)
    by (simp add: uchar_lower uchar_lower_idem cong: map_cong)
  ultimately show ?thesis by simp
qed

lemma validate_domain_lower:
  assumes "validate_domain s"
  shows "validate_domain (to_lowercase s)" "to_lowercase (to_lowercase s) = to_lowercase s"
proof -
  from assms have d: "length s < 253" "re_match DOMAIN_REGEX s"
    by (simp_all add: validate_domain_def re_matches_correct)
  have "length (to_lowercase s) < 253"
    using length_to_lowercase [of s] d by simp
  with d re_match_DOMAIN_lower to_lowercase_idem_DOMAIN
  show "validate_domain (to_lowercase s)" "to_lowercase (to_lowercase s) = to_lowercase s"
    by (simp_all add: validate_domain_def re_matches_correct)
qed

text \<open>The bytes that can occur in an accepted name.\<close>

definition domain_byte :: "char \<Rightarrow> bool" where
  "domain_byte c = (is_ldh c \<or> c = CHR ''.'' \<or> c = CHR ''*'' \<or> c \<in> set long_s \<union> set kelvin)"

lemma domain_bytes_DOMAIN:
  assumes "re_match DOMAIN_REGEX d"
  shows "\<forall>c\<in>set d. domain_byte c"
proof -
  have "re_atoms (\<lambda>t. \<forall>c\<in>set t. domain_byte c) DOMAIN_REGEX"
    by (rule re_atoms_DOMAIN) (simp_all add: domain_byte_def)
  from re_atoms_pieces [OF assms this] show ?thesis by auto
qed

text \<open>Evaluation of a concrete ASCII name goes through the reference definition.\<close>

lemma validate_domain_eq_ok: "ascii d \<Longrightarrow> validate_domain d = domain_ok d"
  by (simp only: validate_domain_def domain_ok_def re_matches_correct re_match_DOMAIN_ascii)

lemma cli_validate_eq_ok:
  "ascii d \<Longrightarrow> cli_validate_domain d =
     (if domain_ok d then Inr (to_lowercase d) else Inl InvalidDomainName)"
  by (simp add: cli_validate_domain_def validate_domain_eq_ok)

section \<open>Properties\<close>

text \<open>
  C20. For a name in ASCII, \<^verbatim>\<open>validate_domain\<close> (the length check and the regular expression)
  accepts exactly what the reference definition accepts: fewer than 253 bytes, and
  \<^verbatim>\<open>localhost\<close>, or dot-separated host labels of 1 to 63 characters ending in a top level
  domain of 2 to 63 letters, optionally after one leading \<^verbatim>\<open>*.\<close>.
\<close>

theorem validate_domain_ascii:
  assumes "ascii d"
  shows "validate_domain d = domain_ok d"
  using assms by (rule validate_domain_eq_ok)

theorem validate_domain_ascii_witness:
  "ascii ''*.api.local'' \<and> validate_domain ''*.api.local'' \<and>
   ascii ''*.local'' \<and> \<not> validate_domain ''*.local''"
proof -
  have a: "ascii ''*.api.local''" and b: "ascii ''*.local''" by simp_all
  have "domain_ok ''*.api.local''" "\<not> domain_ok ''*.local''" by code_simp+
  with validate_domain_ascii [OF a] validate_domain_ascii [OF b] a b show ?thesis by simp
qed

text \<open>
  A domain that passes validation passes it again after lower casing, and lower casing it
  twice changes nothing: what the command line sends to the daemon is never refused there.
\<close>

theorem validate_domain_to_lowercase:
  assumes "cli_validate_domain s = Inr d"
  shows "validate_domain d \<and> to_lowercase d = d"
  using assms validate_domain_lower [of s] by (auto simp: cli_validate_domain_def split: if_splits)

theorem validate_domain_to_lowercase_witness:
  "cli_validate_domain ''API.Local'' = Inr ''api.local'' \<and> validate_domain ''api.local'' \<and>
   to_lowercase ''api.local'' = ''api.local''"
proof -
  have a: "cli_validate_domain ''API.Local'' = Inr ''api.local''"
    by (subst cli_validate_eq_ok, simp, code_simp)
  with validate_domain_to_lowercase [OF a] show ?thesis by blast
qed



text \<open>
  Validation is not limited to ASCII: case folding lets U+017F through, and since it is
  its own lower case the accepted domain keeps a character no DNS name has.
\<close>

theorem validate_domain_accepts_non_ascii:
  "cli_validate_domain (''a'' @ long_s @ ''.local'') = Inr (''a'' @ long_s @ ''.local'') \<and>
   \<not> ascii (''a'' @ long_s @ ''.local'')"
proof -
  let ?d = "''a'' @ long_s @ ''.local''"
  have "name_toks [[''a'', long_s]] (map (\<lambda>c. [c]) ''local'')"
    by (simp add: name_toks_def label_toks_def tld_toks_def ldh_re_def alnum_re_def letter_re_def
      re_match_Rng in_range_def)
  then have "re_match DOMAIN_REGEX ?d"
    unfolding re_match_DOMAIN
    by (intro disjI2 exI [of _ "[]"] exI [of _ "[[''a'', long_s]]"] exI [of _ "map (\<lambda>c. [c]) ''local''"])
       (simp add: dotted_def)
  moreover have "length ?d < 253" "to_lowercase ?d = ?d" "\<not> ascii ?d" by code_simp+
  ultimately show ?thesis by (simp add: cli_validate_domain_def validate_domain_def re_matches_correct)
qed

end
