(* ===== verification/Net.thy ===== *)
theory Net
  imports Prelude
begin

text \<open>
  Addresses of \<^verbatim>\<open>std::net\<close> as the sources use them (construction, projection, display), and
  the constants of \<^verbatim>\<open>core/src/config.rs\<close>. Octets, segments and ports keep their width.
\<close>

section \<open>Addresses\<close>

datatype ipv4_addr = Ipv4Addr u8 u8 u8 u8

datatype ipv6_addr = Ipv6Addr u16 u16 u16 u16 u16 u16 u16 u16

datatype ip_addr = V4 ipv4_addr | V6 ipv6_addr

text \<open>\<^verbatim>\<open>SocketAddr\<close>; the IPv6 form also carries flow information and a scope identifier.\<close>

datatype socket_addr =
    SocketAddrV4 ipv4_addr u16
  | SocketAddrV6 ipv6_addr u16 u32 u32

fun socket_addr_new :: "ip_addr \<Rightarrow> u16 \<Rightarrow> socket_addr" where
  "socket_addr_new (V4 a) p = SocketAddrV4 a p"
| "socket_addr_new (V6 a) p = SocketAddrV6 a p 0 0"

fun addr_ip :: "socket_addr \<Rightarrow> ip_addr" where
  "addr_ip (SocketAddrV4 a p) = V4 a"
| "addr_ip (SocketAddrV6 a p f s) = V6 a"

fun addr_port :: "socket_addr \<Rightarrow> u16" where
  "addr_port (SocketAddrV4 a p) = p"
| "addr_port (SocketAddrV6 a p f s) = p"

fun set_port :: "socket_addr \<Rightarrow> u16 \<Rightarrow> socket_addr" where
  "set_port (SocketAddrV4 a p) q = SocketAddrV4 a q"
| "set_port (SocketAddrV6 a p f s) q = SocketAddrV6 a q f s"

abbreviation ipv4_unspecified :: ipv4_addr where
  "ipv4_unspecified \<equiv> Ipv4Addr 0 0 0 0"

abbreviation ipv4_localhost :: ipv4_addr where
  "ipv4_localhost \<equiv> Ipv4Addr 127 0 0 1"

abbreviation ipv6_unspecified :: ipv6_addr where
  "ipv6_unspecified \<equiv> Ipv6Addr 0 0 0 0 0 0 0 0"

abbreviation ipv6_localhost :: ipv6_addr where
  "ipv6_localhost \<equiv> Ipv6Addr 0 0 0 0 0 0 0 1"

lemma socket_addr_new_simps [simp]:
  "addr_ip (socket_addr_new ip p) = ip"
  "addr_port (socket_addr_new ip p) = p"
  by (cases ip; simp)+

section \<open>Display\<close>

definition digit :: "nat \<Rightarrow> char" where
  "digit n = ''0123456789abcdef'' ! n"

fun show_dec :: "nat \<Rightarrow> string" where
  "show_dec n = (if n < 10 then [digit n] else show_dec (n div 10) @ [digit (n mod 10)])"

fun show_hex :: "nat \<Rightarrow> string" where
  "show_hex n = (if n < 16 then [digit n] else show_hex (n div 16) @ [digit (n mod 16)])"

declare show_dec.simps [simp del] show_hex.simps [simp del]

fun ipv4_to_string :: "ipv4_addr \<Rightarrow> string" where
  "ipv4_to_string (Ipv4Addr a b c d) =
     show_dec (unat a) @ ''.'' @ show_dec (unat b) @ ''.'' @ show_dec (unat c) @ ''.'' @ show_dec (unat d)"

fun segments :: "ipv6_addr \<Rightarrow> u16 list" where
  "segments (Ipv6Addr a b c d e f g h) = [a, b, c, d, e, f, g, h]"

text \<open>The first longest run of zero segments, as a start and a length.\<close>

fun zero_span :: "nat \<Rightarrow> u16 list \<Rightarrow> nat \<times> nat \<Rightarrow> nat \<times> nat \<Rightarrow> nat \<times> nat" where
  "zero_span i [] cur longest = longest"
| "zero_span i (s # ss) cur longest =
     (if s = 0
      then let cur' = (if snd cur = 0 then i else fst cur, snd cur + 1)
           in zero_span (Suc i) ss cur' (if snd cur' > snd longest then cur' else longest)
      else zero_span (Suc i) ss (0, 0) longest)"

fun show_segments :: "u16 list \<Rightarrow> string" where
  "show_segments [] = []"
| "show_segments [s] = show_hex (unat s)"
| "show_segments (s # ss) = show_hex (unat s) @ '':'' @ show_segments ss"

fun to_ipv4_mapped :: "ipv6_addr \<Rightarrow> ipv4_addr option" where
  "to_ipv4_mapped (Ipv6Addr a b c d e f g h) =
     (if [a, b, c, d, e] = [0, 0, 0, 0, 0] \<and> f = 65535
      then Some (Ipv4Addr (ucast (drop_bit 8 g)) (ucast g) (ucast (drop_bit 8 h)) (ucast h))
      else None)"

definition ipv6_to_string :: "ipv6_addr \<Rightarrow> string" where
  "ipv6_to_string a =
     (case to_ipv4_mapped a of
        Some v4 \<Rightarrow> ''::ffff:'' @ ipv4_to_string v4
      | None \<Rightarrow>
          (let segs = segments a; (start, len) = zero_span 0 segs (0, 0) (0, 0)
           in if len > 1
              then show_segments (take start segs) @ ''::'' @ show_segments (drop (start + len) segs)
              else show_segments segs))"

fun ip_to_string :: "ip_addr \<Rightarrow> string" where
  "ip_to_string (V4 a) = ipv4_to_string a"
| "ip_to_string (V6 a) = ipv6_to_string a"

fun addr_to_string :: "socket_addr \<Rightarrow> string" where
  "addr_to_string (SocketAddrV4 a p) = ipv4_to_string a @ '':'' @ show_dec (unat p)"
| "addr_to_string (SocketAddrV6 a p f s) =
     ''['' @ ipv6_to_string a @ (if s = 0 then [] else ''%'' @ show_dec (unat s)) @ '']:'' @ show_dec (unat p)"

text \<open>
  The characters of a displayed address: lower case hexadecimal digits, dots and colons. All of
  them are visible ASCII, so an address is always a valid header value.
\<close>

definition addr_char :: "char \<Rightarrow> bool" where
  "addr_char c = (c \<in> set ''0123456789abcdef.:'')"

lemma digit_addr_char: "n < 16 \<Longrightarrow> addr_char (digit n)"
  using nth_mem [of n "''0123456789abcdef''"]
  unfolding digit_def addr_char_def set_append [of "''0123456789abcdef''" "''.:''", simplified append.simps]
  by simp

lemma show_dec_chars: "\<forall>c\<in>set (show_dec n). addr_char c"
proof (induction n rule: show_dec.induct)
  case (1 n)
  then show ?case
    by (subst show_dec.simps) (auto simp: digit_addr_char)
qed

lemma show_hex_chars: "\<forall>c\<in>set (show_hex n). addr_char c"
proof (induction n rule: show_hex.induct)
  case (1 n)
  then show ?case
    by (subst show_hex.simps) (auto simp: digit_addr_char)
qed

lemma addr_char_punct [simp]: "addr_char CHR ''.''" "addr_char CHR '':''" "addr_char CHR ''f''"
  by (simp_all add: addr_char_def)

lemma ipv4_chars: "\<forall>c\<in>set (ipv4_to_string a). addr_char c"
  by (cases a) (simp add: ball_Un show_dec_chars)

lemma show_segments_chars: "\<forall>c\<in>set (show_segments ss). addr_char c"
  by (induction ss rule: show_segments.induct) (simp_all add: ball_Un show_hex_chars)

lemma ipv6_chars: "\<forall>c\<in>set (ipv6_to_string a). addr_char c"
proof (cases "to_ipv4_mapped a")
  case None
  obtain start len where "zero_span 0 (segments a) (0, 0) (0, 0) = (start, len)" by fastforce
  with None show ?thesis
    by (simp add: ipv6_to_string_def ball_Un show_segments_chars Let_def)
qed (simp add: ipv6_to_string_def ball_Un ipv4_chars)

lemma ip_to_string_chars: "\<forall>c\<in>set (ip_to_string ip). addr_char c"
  by (cases ip) (simp_all add: ipv4_chars ipv6_chars)

lemma show_dec_ne: "show_dec n \<noteq> []"
  by (subst show_dec.simps) simp

lemma ipv4_to_string_example: "ipv4_to_string (Ipv4Addr 127 0 53 53) = ''127.0.53.53''"
  by (simp add: show_dec.simps digit_def)

lemma ipv6_to_string_example: "ipv6_to_string ipv6_localhost = ''::1''"
  by (simp add: ipv6_to_string_def show_hex.simps digit_def)

section \<open>Constants of the configuration\<close>

definition DNS_RECORD_TTL_SECONDS :: u32 where
  "DNS_RECORD_TTL_SECONDS = 10"

definition DNS_LISTEN_ADDR :: socket_addr where
  "DNS_LISTEN_ADDR = socket_addr_new (V4 (Ipv4Addr 127 0 53 53)) 53"

definition PROXY_LISTEN_ADDR :: socket_addr where
  "PROXY_LISTEN_ADDR = socket_addr_new (V4 (Ipv4Addr 127 0 0 42)) 80"

end
