(* ===== verification/Rule.thy ===== *)
theory Rule
  imports Net
begin

text \<open>
  \<^verbatim>\<open>core/src/rule.rs\<close>: a routing rule and the domains it covers. \<open>matches\<close> keeps the byte
  arithmetic of the source in \<open>dotted_suffix\<close>; the lemmas say what it means.
\<close>

section \<open>The rule\<close>

record dns_rule =
  domain :: string
  target :: socket_addr
  https :: bool

definition dns_rule_new :: "string \<Rightarrow> socket_addr \<Rightarrow> bool \<Rightarrow> dns_rule" where
  "dns_rule_new d t h = \<lparr>domain = d, target = t, https = h\<rparr>"

definition with_https :: "dns_rule \<Rightarrow> bool \<Rightarrow> dns_rule" where
  "with_https r h = r\<lparr>https := h\<rparr>"

definition is_wildcard :: "dns_rule \<Rightarrow> bool" where
  "is_wildcard r = (strip_prefix ''*.'' (domain r) \<noteq> None)"

definition matches :: "dns_rule \<Rightarrow> string \<Rightarrow> bool" where
  "matches r d =
     (case strip_prefix ''*.'' (domain r) of
        Some suf \<Rightarrow> dotted_suffix d suf
      | None \<Rightarrow> domain r = d)"

text \<open>\<^verbatim>\<open>Display for DnsRule\<close>; the arrow U+2192 is the bytes E2 86 92.\<close>

definition arrow :: string where
  "arrow = [char_of (226 :: nat), char_of (134 :: nat), char_of (146 :: nat)]"

definition rule_to_string :: "dns_rule \<Rightarrow> string" where
  "rule_to_string r =
     (if https r then ''https'' else ''http'') @ ''://'' @ domain r @ '' '' @ arrow @ '' '' @
     addr_to_string (target r)"

text \<open>A rule that routes to a port of the local host; the examples below use it.\<close>

abbreviation local_rule :: "string \<Rightarrow> u16 \<Rightarrow> bool \<Rightarrow> dns_rule" where
  "local_rule d p h \<equiv> dns_rule_new d (SocketAddrV4 ipv4_localhost p) h"

section \<open>What a rule matches\<close>

lemma dns_rule_new_simps [simp]:
  "domain (dns_rule_new d t h) = d" "target (dns_rule_new d t h) = t" "https (dns_rule_new d t h) = h"
  by (simp_all add: dns_rule_new_def)

lemma is_wildcard_iff: "is_wildcard r \<longleftrightarrow> (\<exists>suf. domain r = ''*.'' @ suf)"
  unfolding is_wildcard_def strip_prefix_iff [symmetric] by blast

lemma matches_exact: "\<not> is_wildcard r \<Longrightarrow> matches r d \<longleftrightarrow> domain r = d"
  by (auto simp: is_wildcard_def matches_def)

lemma matches_wildcard:
  "domain r = ''*.'' @ suf \<Longrightarrow> matches r d \<longleftrightarrow> (\<exists>p. d = p @ CHR ''.'' # suf)"
  by (simp add: matches_def dotted_suffix_iff)

lemma matches_same_domain: "domain r = domain q \<Longrightarrow> matches r = matches q"
  by (rule ext) (simp add: matches_def split: option.splits)

text \<open>
  A wildcard rule for \<^verbatim>\<open>*.suffix\<close> matches exactly the names that consist of something, a
  dot and the suffix: every depth of subdomain, never the suffix itself nor a name that merely
  ends in the same letters. Any other rule matches its own domain only.
\<close>

theorem matches_iff:
  "matches r d \<longleftrightarrow>
     (case strip_prefix ''*.'' (domain r) of
        Some suf \<Rightarrow> (\<exists>p. d = p @ ''.'' @ suf)
      | None \<Rightarrow> d = domain r)"
  by (auto simp: matches_def dotted_suffix_iff split: option.splits)

end
