(* ===== verification/Store.thy ===== *)
theory Store
  imports Rule
begin

text \<open>
  \<^verbatim>\<open>InnerRuleStore\<close> of \<^verbatim>\<open>core/src/store.rs\<close>: two layers of rules, persistent and ephemeral,
  each with a hash map of exact rules and a vector of wildcard rules. Every operation of the
  source is one definition. \<open>store_inv\<close> is the invariant all of them keep.

  The interface \<open>rule_layer\<close> says what a layer promises to its clients: a map from domains to
  rules with insertion and removal. Both layers implement it, and the facts about sequences of
  insertions and removals are proved once, from the interface.
\<close>

section \<open>State and operations\<close>

record inner_rule_store =
  ephemeral_exact :: "dns_rule table"
  persistent_exact :: "dns_rule table"
  ephemeral_wildcard :: "dns_rule list"
  persistent_wildcard :: "dns_rule list"

definition inner_new :: inner_rule_store where
  "inner_new = \<lparr>ephemeral_exact = [], persistent_exact = [], ephemeral_wildcard = [], persistent_wildcard = []\<rparr>"

definition find_wildcard :: "dns_rule list \<Rightarrow> string \<Rightarrow> dns_rule option" where
  "find_wildcard rs d = find (\<lambda>r. matches r d) rs"

definition inner_resolve :: "inner_rule_store \<Rightarrow> string \<Rightarrow> dns_rule option" where
  "inner_resolve s d =
     (case map_of (ephemeral_exact s) d of Some r \<Rightarrow> Some r | None \<Rightarrow>
     (case find_wildcard (ephemeral_wildcard s) d of Some r \<Rightarrow> Some r | None \<Rightarrow>
     (case map_of (persistent_exact s) d of Some r \<Rightarrow> Some r | None \<Rightarrow>
     (case find_wildcard (persistent_wildcard s) d of Some r \<Rightarrow> Some r | None \<Rightarrow> None))))"

definition inner_add :: "dns_rule \<Rightarrow> inner_rule_store \<Rightarrow> inner_rule_store" where
  "inner_add r s =
     (if is_wildcard r
      then s\<lparr>persistent_wildcard := filter (\<lambda>q. domain q \<noteq> domain r) (persistent_wildcard s) @ [r]\<rparr>
      else s\<lparr>persistent_exact := AList.update (domain r) r (persistent_exact s)\<rparr>)"

definition inner_add_all :: "dns_rule list \<Rightarrow> inner_rule_store \<Rightarrow> inner_rule_store" where
  "inner_add_all rs s = fold inner_add rs s"

definition inner_add_ephemeral :: "dns_rule \<Rightarrow> inner_rule_store \<Rightarrow> inner_rule_store" where
  "inner_add_ephemeral r s =
     (if is_wildcard r
      then s\<lparr>ephemeral_wildcard := filter (\<lambda>q. domain q \<noteq> domain r) (ephemeral_wildcard s) @ [r]\<rparr>
      else s\<lparr>ephemeral_exact := AList.update (domain r) r (ephemeral_exact s)\<rparr>)"

text \<open>
  Removal takes the entry out of the hash map, then looks for a wildcard of the same name and
  takes that out with \<^verbatim>\<open>swap_remove\<close>; the wildcard, if there is one, is the rule returned.
\<close>

definition inner_remove :: "string \<Rightarrow> inner_rule_store \<Rightarrow> dns_rule option \<times> inner_rule_store" where
  "inner_remove d s =
     (let rule = map_of (persistent_exact s) d;
          s' = s\<lparr>persistent_exact := AList.delete d (persistent_exact s)\<rparr>
      in case position (\<lambda>q. domain q = d) (persistent_wildcard s') of
           Some pos \<Rightarrow>
             (Some (persistent_wildcard s' ! pos),
              s'\<lparr>persistent_wildcard := swap_remove pos (persistent_wildcard s')\<rparr>)
         | None \<Rightarrow> (rule, s'))"

definition inner_remove_ephemeral :: "string \<Rightarrow> inner_rule_store \<Rightarrow> dns_rule option \<times> inner_rule_store" where
  "inner_remove_ephemeral d s =
     (let rule = map_of (ephemeral_exact s) d;
          s' = s\<lparr>ephemeral_exact := AList.delete d (ephemeral_exact s)\<rparr>
      in case position (\<lambda>q. domain q = d) (ephemeral_wildcard s') of
           Some pos \<Rightarrow>
             (Some (ephemeral_wildcard s' ! pos),
              s'\<lparr>ephemeral_wildcard := swap_remove pos (ephemeral_wildcard s')\<rparr>)
         | None \<Rightarrow> (rule, s'))"

definition persistent_rules :: "inner_rule_store \<Rightarrow> dns_rule list" where
  "persistent_rules s = map snd (persistent_exact s) @ persistent_wildcard s"

definition all_rules :: "inner_rule_store \<Rightarrow> dns_rule list" where
  "all_rules s = map snd (ephemeral_exact s) @ ephemeral_wildcard s @
     map snd (persistent_exact s) @ persistent_wildcard s"

definition inner_len :: "inner_rule_store \<Rightarrow> nat" where
  "inner_len s = length (ephemeral_exact s) + length (ephemeral_wildcard s) +
     length (persistent_exact s) + length (persistent_wildcard s)"

definition inner_is_empty :: "inner_rule_store \<Rightarrow> bool" where
  "inner_is_empty s = (inner_len s = 0)"

section \<open>The invariant\<close>

text \<open>A hash map holds exact rules under their own names; a vector holds one wildcard per name.\<close>

definition exact_ok :: "dns_rule table \<Rightarrow> bool" where
  "exact_ok m = (table_ok m \<and> list_all (\<lambda>(k, r). k = domain r \<and> \<not> is_wildcard r) m)"

definition wild_ok :: "dns_rule list \<Rightarrow> bool" where
  "wild_ok ws = (distinct (map domain ws) \<and> list_all is_wildcard ws)"

definition store_inv :: "inner_rule_store \<Rightarrow> bool" where
  "store_inv s = (exact_ok (ephemeral_exact s) \<and> exact_ok (persistent_exact s) \<and>
     wild_ok (ephemeral_wildcard s) \<and> wild_ok (persistent_wildcard s))"

section \<open>One layer\<close>

text \<open>The rules of one layer by name, and the two updates both layers make.\<close>

definition layer_of :: "dns_rule table \<Rightarrow> dns_rule list \<Rightarrow> string \<Rightarrow> dns_rule option" where
  "layer_of m ws d = (case map_of (map (\<lambda>r. (domain r, r)) ws) d of Some r \<Rightarrow> Some r | None \<Rightarrow> map_of m d)"

definition persistent :: "inner_rule_store \<Rightarrow> string \<Rightarrow> dns_rule option" where
  "persistent s = layer_of (persistent_exact s) (persistent_wildcard s)"

definition ephemeral :: "inner_rule_store \<Rightarrow> string \<Rightarrow> dns_rule option" where
  "ephemeral s = layer_of (ephemeral_exact s) (ephemeral_wildcard s)"

lemma layer_of_Nil [simp]: "layer_of m [] = map_of m"
  by (simp add: layer_of_def fun_eq_iff)

lemma exact_ok_update: "exact_ok m \<Longrightarrow> \<not> is_wildcard r \<Longrightarrow> exact_ok (AList.update (domain r) r m)"
  by (auto simp: exact_ok_def list_all_iff table_simps)

lemma exact_ok_delete: "exact_ok m \<Longrightarrow> exact_ok (AList.delete d m)"
  by (auto simp: exact_ok_def list_all_iff table_simps)

lemma exact_ok_get: "exact_ok m \<Longrightarrow> map_of m d = Some r \<Longrightarrow> domain r = d \<and> \<not> is_wildcard r"
  by (auto simp: exact_ok_def list_all_iff dest!: map_of_SomeD)

lemma wild_ok_push:
  "wild_ok ws \<Longrightarrow> is_wildcard r \<Longrightarrow> wild_ok (filter (\<lambda>q. domain q \<noteq> domain r) ws @ [r])"
  by (auto simp: wild_ok_def list_all_iff distinct_map_filter)

lemma wild_ok_distinct: "wild_ok ws \<Longrightarrow> distinct ws"
  by (simp add: wild_ok_def distinct_map)

lemma wild_get: "wild_ok ws \<Longrightarrow> map_of (map (\<lambda>r. (domain r, r)) ws) d = Some r \<longleftrightarrow> r \<in> set ws \<and> domain r = d"
  by (subst map_of_eq_Some_iff) (auto simp: wild_ok_def comp_def)

lemma wild_get_None: "map_of (map (\<lambda>r. (domain r, r)) ws) d = None \<longleftrightarrow> (\<forall>r\<in>set ws. domain r \<noteq> d)"
  by (force simp: map_of_eq_None_iff)

lemma set_wild_swap_remove:
  assumes "wild_ok ws" "position (\<lambda>q. domain q = d) ws = Some i"
  shows "set (swap_remove i ws) = {r \<in> set ws. domain r \<noteq> d}" "wild_ok (swap_remove i ws)"
    "ws ! i \<in> set ws" "domain (ws ! i) = d"
proof -
  from position_Some [OF assms(2)] have i: "i < length ws" "domain (ws ! i) = d" by auto
  then show mem: "ws ! i \<in> set ws" "domain (ws ! i) = d" by auto
  have inj: "inj_on domain (set ws)" using assms(1) by (simp add: wild_ok_def distinct_map)
  have sub: "set (swap_remove i ws) = set ws - {ws ! i}"
    using set_swap_remove_distinct [OF i(1)] wild_ok_distinct [OF assms(1)] by simp
  with mem inj show "set (swap_remove i ws) = {r \<in> set ws. domain r \<noteq> d}"
    by (auto simp: inj_on_def)
  have "mset (map domain (swap_remove i ws)) = image_mset domain (mset ws - {#ws ! i#})"
    by (simp add: mset_swap_remove [OF i(1)])
  also have "\<dots> = mset (map domain ws) - {#domain (ws ! i)#}"
    using i(1) by (simp add: image_mset_Diff)
  finally have "mset (map domain (swap_remove i ws)) = mset (remove1 (domain (ws ! i)) (map domain ws))"
    by simp
  then have "distinct (map domain (swap_remove i ws))"
    using assms(1) mset_eq_imp_distinct_iff by (metis distinct_remove1 wild_ok_def)
  with sub assms(1) show "wild_ok (swap_remove i ws)" by (simp add: wild_ok_def list_all_iff)
qed

lemma is_wildcard_cong: "domain q = domain r \<Longrightarrow> is_wildcard q = is_wildcard r"
  by (simp add: is_wildcard_def)

lemma layer_of_update:
  assumes "wild_ok ws" "\<not> is_wildcard r"
  shows "layer_of (AList.update (domain r) r m) ws = (layer_of m ws)(domain r \<mapsto> r)"
proof -
  have "map_of (map (\<lambda>r. (domain r, r)) ws) (domain r) = None"
    unfolding wild_get_None using assms is_wildcard_cong
    by (metis list_all_iff wild_ok_def)
  then show ?thesis
    by (auto simp: layer_of_def fun_eq_iff table_simps split: option.splits)
qed

lemma layer_of_push:
  assumes "wild_ok ws" "is_wildcard r"
  shows "layer_of m (filter (\<lambda>q. domain q \<noteq> domain r) ws @ [r]) = (layer_of m ws)(domain r \<mapsto> r)"
proof
  fix d
  let ?ws' = "filter (\<lambda>q. domain q \<noteq> domain r) ws @ [r]"
  have ok: "wild_ok ?ws'" using assms by (rule wild_ok_push)
  show "layer_of m ?ws' d = ((layer_of m ws)(domain r \<mapsto> r)) d"
  proof (cases "d = domain r")
    case True
    then have "map_of (map (\<lambda>r. (domain r, r)) ?ws') d = Some r" using ok by (simp only: wild_get) simp
    with True show ?thesis by (simp add: layer_of_def)
  next
    case False
    have "map_of (map (\<lambda>r. (domain r, r)) ?ws') d = Some q \<longleftrightarrow> map_of (map (\<lambda>r. (domain r, r)) ws) d = Some q" for q
      using False wild_get [OF ok] wild_get [OF assms(1)] by auto
    then have "map_of (map (\<lambda>r. (domain r, r)) ?ws') d = map_of (map (\<lambda>r. (domain r, r)) ws) d"
      by (rule option_eqI)
    with False show ?thesis by (simp add: layer_of_def)
  qed
qed

lemma layer_of_swap_remove:
  assumes "exact_ok m" "wild_ok ws" "position (\<lambda>q. domain q = d) ws = Some i"
  shows "layer_of (AList.delete d m) (swap_remove i ws) = (layer_of m ws)(d := None)"
    "layer_of m ws d = Some (ws ! i)"
proof -
  note sr = set_wild_swap_remove [OF assms(2,3)]
  show "layer_of m ws d = Some (ws ! i)"
    using sr(3,4) wild_get [OF assms(2), of d "ws ! i"] by (simp add: layer_of_def)
  show "layer_of (AList.delete d m) (swap_remove i ws) = (layer_of m ws)(d := None)"
  proof
    fix x
    have "map_of (map (\<lambda>r. (domain r, r)) (swap_remove i ws)) x = Some q \<longleftrightarrow>
        x \<noteq> d \<and> map_of (map (\<lambda>r. (domain r, r)) ws) x = Some q" for q
      using wild_get [OF sr(2)] wild_get [OF assms(2)] sr(1) by auto
    then have "map_of (map (\<lambda>r. (domain r, r)) (swap_remove i ws)) x =
        (if x = d then None else map_of (map (\<lambda>r. (domain r, r)) ws) x)"
      by (intro option_eqI) simp
    then show "layer_of (AList.delete d m) (swap_remove i ws) x = ((layer_of m ws)(d := None)) x"
      by (simp add: layer_of_def table_simps split: option.splits)
  qed
qed

lemma layer_of_delete:
  assumes "position (\<lambda>q. domain q = d) ws = None"
  shows "layer_of (AList.delete d m) ws = (layer_of m ws)(d := None)" "layer_of m ws d = map_of m d"
  using assms [unfolded position_None] wild_get_None [of ws d]
  by (auto simp: layer_of_def fun_eq_iff table_simps split: option.splits)

section \<open>The interface of a layer\<close>

locale rule_layer =
  fixes add :: "dns_rule \<Rightarrow> 's \<Rightarrow> 's"
    and remove :: "string \<Rightarrow> 's \<Rightarrow> dns_rule option \<times> 's"
    and layer :: "'s \<Rightarrow> string \<Rightarrow> dns_rule option"
    and inv :: "'s \<Rightarrow> bool"
  assumes add_inv: "inv s \<Longrightarrow> inv (add r s)"
    and remove_inv: "inv s \<Longrightarrow> inv (snd (remove d s))"
    and layer_add: "inv s \<Longrightarrow> layer (add r s) = (layer s)(domain r \<mapsto> r)"
    and layer_remove: "inv s \<Longrightarrow> layer (snd (remove d s)) = (layer s)(d := None)"
    and removed: "inv s \<Longrightarrow> fst (remove d s) = layer s d"
begin

lemma fold_add_inv: "inv s \<Longrightarrow> inv (fold add rs s)"
  by (induction rs arbitrary: s) (simp_all add: add_inv)

text \<open>A sequence of insertions: the last rule for a name wins, other names are untouched.\<close>

lemma fold_add:
  "inv s \<Longrightarrow> layer (fold add rs s) = layer s ++ map_of (rev (map (\<lambda>r. (domain r, r)) rs))"
proof (induction rs arbitrary: s)
  case (Cons r rs)
  then have "layer (fold add (r # rs) s) = layer (add r s) ++ map_of (rev (map (\<lambda>r. (domain r, r)) rs))"
    by (simp add: add_inv)
  also have "\<dots> = layer s ++ map_of (rev (map (\<lambda>r. (domain r, r)) (r # rs)))"
    using Cons.prems by (auto simp: layer_add fun_eq_iff map_add_def split: option.splits)
  finally show ?case .
qed simp

lemma remove_twice: "inv s \<Longrightarrow> fst (remove d (snd (remove d s))) = None"
  by (simp add: removed remove_inv layer_remove)

lemma remove_after_add: "inv s \<Longrightarrow> fst (remove (domain r) (add r s)) = Some r"
  by (simp add: removed add_inv layer_add)

lemma add_remove_frame:
  "inv s \<Longrightarrow> d \<noteq> domain r \<Longrightarrow> layer (add r s) d = layer s d"
  "inv s \<Longrightarrow> x \<noteq> d \<Longrightarrow> layer (snd (remove d s)) x = layer s x"
  by (simp_all add: layer_add layer_remove)

end

lemmas layer_defs = inner_add_def inner_remove_def inner_add_ephemeral_def inner_remove_ephemeral_def
  persistent_def ephemeral_def store_inv_def Let_def

lemmas layer_facts = exact_ok_update exact_ok_delete wild_ok_push set_wild_swap_remove(2)
  layer_of_update layer_of_push layer_of_swap_remove layer_of_delete

interpretation pers: rule_layer inner_add inner_remove persistent store_inv
  by unfold_locales (auto simp: layer_defs layer_facts split: option.splits)

interpretation eph: rule_layer inner_add_ephemeral inner_remove_ephemeral ephemeral store_inv
  by unfold_locales (auto simp: layer_defs layer_facts split: option.splits)

text \<open>Each layer leaves the other alone.\<close>

lemma ephemeral_inner_add [simp]: "ephemeral (inner_add r s) = ephemeral s"
  and persistent_inner_add_ephemeral [simp]: "persistent (inner_add_ephemeral r s) = persistent s"
  by (simp_all add: layer_defs)

lemma ephemeral_inner_remove [simp]: "ephemeral (snd (inner_remove d s)) = ephemeral s"
  and persistent_inner_remove_ephemeral [simp]: "persistent (snd (inner_remove_ephemeral d s)) = persistent s"
  by (auto simp: layer_defs split: option.splits)

lemma store_inv_new [simp]: "store_inv inner_new"
  by (simp add: store_inv_def inner_new_def exact_ok_def wild_ok_def)

lemma store_inv_add_all: "store_inv s \<Longrightarrow> store_inv (inner_add_all rs s)"
  unfolding inner_add_all_def by (rule pers.fold_add_inv)

lemmas store_inv_intros = store_inv_new pers.add_inv pers.remove_inv eph.add_inv eph.remove_inv
  store_inv_add_all

section \<open>Resolution\<close>

text \<open>
  The rank of a rule, as the store's documentation lists them: ephemeral exact, ephemeral
  wildcard, persistent exact, persistent wildcard. \<open>ranked s\<close> is every rule with its rank.
\<close>

definition ranked :: "inner_rule_store \<Rightarrow> (nat \<times> dns_rule) list" where
  "ranked s = map (Pair 0 \<circ> snd) (ephemeral_exact s) @ map (Pair 1) (ephemeral_wildcard s) @
     map (Pair 2 \<circ> snd) (persistent_exact s) @ map (Pair 3) (persistent_wildcard s)"

lemma snd_ranked: "map snd (ranked s) = all_rules s"
  by (simp add: ranked_def all_rules_def comp_def)

lemma exact_get_find:
  assumes "exact_ok m"
  shows "map_of m d = find (\<lambda>r. matches r d) (map snd m)"
  using assms
proof (induction m)
  case (Cons p m)
  then have "exact_ok m" "fst p = domain (snd p)" "\<not> is_wildcard (snd p)"
    by (auto simp: exact_ok_def table_ok_def split: prod.splits)
  with Cons.IH show ?case by (cases p) (auto simp: matches_exact)
qed simp

text \<open>Resolution is the first match in the list of all rules, the best rank first.\<close>

lemma inner_resolve_find:
  assumes "store_inv s"
  shows "inner_resolve s d = find (\<lambda>r. matches r d) (all_rules s)"
proof -
  have "map_of (ephemeral_exact s) d = find (\<lambda>r. matches r d) (map snd (ephemeral_exact s))"
    "map_of (persistent_exact s) d = find (\<lambda>r. matches r d) (map snd (persistent_exact s))"
    using assms by (auto simp: store_inv_def intro!: exact_get_find)
  then show ?thesis
    by (simp only: inner_resolve_def find_wildcard_def all_rules_def find_append case_option_id)
qed

lemma inner_resolve_frame_add:
  assumes "store_inv s" "\<not> matches r d"
  shows "inner_resolve (inner_add r s) d = inner_resolve s d"
    and "inner_resolve (inner_add_ephemeral r s) d = inner_resolve s d"
proof -
  have wild: "find_wildcard (filter (\<lambda>q. domain q \<noteq> domain r) ws @ [r]) d = find_wildcard ws d" for ws
  proof -
    have "find (\<lambda>q. matches q d) (filter (\<lambda>q. domain q \<noteq> domain r) ws) = find (\<lambda>q. matches q d) ws"
      using assms(2) matches_same_domain by (intro find_filter_irrelevant) metis
    with assms(2) show ?thesis by (simp add: find_wildcard_def find_append split: option.splits)
  qed
  have exact: "\<not> is_wildcard r \<Longrightarrow> d \<noteq> domain r"
    using assms(2) by (auto simp: matches_exact)
  show "inner_resolve (inner_add r s) d = inner_resolve s d"
    "inner_resolve (inner_add_ephemeral r s) d = inner_resolve s d"
    using wild exact
    by (simp_all add: inner_resolve_def inner_add_def inner_add_ephemeral_def table_simps
      cong: option.case_cong)
qed

text \<open>
  Removal keeps the resolution of a domain the removed rule does not match, provided at most
  one wildcard of the layer matches it; \<^verbatim>\<open>swap_remove\<close> reorders the others.
\<close>

lemma frame_remove_exact:
  assumes "exact_ok m" "position (\<lambda>q. domain q = n) ws = None" "map_of m n = Some r" "\<not> matches r d"
  shows "map_of (AList.delete n m) d = map_of m d"
  using assms exact_ok_get matches_exact by (metis table_get_delete)

lemma frame_remove_wild:
  assumes "exact_ok m" "wild_ok ws" "position (\<lambda>q. domain q = n) ws = Some i" "\<not> matches (ws ! i) d"
    and "single_match (\<lambda>q. matches q d) ws"
  shows "map_of (AList.delete n m) d = map_of m d"
    and "find_wildcard (swap_remove i ws) d = find_wildcard ws d"
proof -
  from position_Some [OF assms(3)] have i: "i < length ws" "domain (ws ! i) = n" by auto
  have "is_wildcard (ws ! i)" using i(1) assms(2) by (auto simp: wild_ok_def list_all_iff)
  then have "map_of m n = None"
    using assms(1) i(2) by (metis exact_ok_get is_wildcard_cong option.exhaust)
  then show "map_of (AList.delete n m) d = map_of m d" by (auto simp: table_simps)
  show "find_wildcard (swap_remove i ws) d = find_wildcard ws d"
    unfolding find_wildcard_def using i(1) assms(4,5) by (intro find_swap_remove) auto
qed

lemma inner_resolve_frame_remove:
  assumes "store_inv s" "fst (inner_remove n s) = Some r" "\<not> matches r d"
    and "single_match (\<lambda>q. matches q d) (persistent_wildcard s)"
  shows "inner_resolve (snd (inner_remove n s)) d = inner_resolve s d"
proof (cases "position (\<lambda>q. domain q = n) (persistent_wildcard s)")
  case None
  with assms(2) have "map_of (persistent_exact s) n = Some r" by (simp add: inner_remove_def)
  with assms None have "map_of (AList.delete n (persistent_exact s)) d = map_of (persistent_exact s) d"
    by (intro frame_remove_exact) (auto simp: store_inv_def)
  with None show ?thesis by (simp add: inner_remove_def inner_resolve_def cong: option.case_cong)
next
  case (Some i)
  with assms(2) have "r = persistent_wildcard s ! i" by (simp add: inner_remove_def)
  with assms have "map_of (AList.delete n (persistent_exact s)) d = map_of (persistent_exact s) d"
    "find_wildcard (swap_remove i (persistent_wildcard s)) d = find_wildcard (persistent_wildcard s) d"
    by (auto simp: store_inv_def intro: frame_remove_wild [OF _ _ Some])
  with Some show ?thesis by (simp add: inner_remove_def inner_resolve_def cong: option.case_cong)
qed

lemma inner_resolve_frame_remove_ephemeral:
  assumes "store_inv s" "fst (inner_remove_ephemeral n s) = Some r" "\<not> matches r d"
    and "single_match (\<lambda>q. matches q d) (ephemeral_wildcard s)"
  shows "inner_resolve (snd (inner_remove_ephemeral n s)) d = inner_resolve s d"
proof (cases "position (\<lambda>q. domain q = n) (ephemeral_wildcard s)")
  case None
  with assms(2) have "map_of (ephemeral_exact s) n = Some r" by (simp add: inner_remove_ephemeral_def)
  with assms None have "map_of (AList.delete n (ephemeral_exact s)) d = map_of (ephemeral_exact s) d"
    by (intro frame_remove_exact) (auto simp: store_inv_def)
  with None show ?thesis by (simp add: inner_remove_ephemeral_def inner_resolve_def cong: option.case_cong)
next
  case (Some i)
  with assms(2) have "r = ephemeral_wildcard s ! i" by (simp add: inner_remove_ephemeral_def)
  with assms have "map_of (AList.delete n (ephemeral_exact s)) d = map_of (ephemeral_exact s) d"
    "find_wildcard (swap_remove i (ephemeral_wildcard s)) d = find_wildcard (ephemeral_wildcard s) d"
    by (auto simp: store_inv_def intro: frame_remove_wild [OF _ _ Some])
  with Some show ?thesis by (simp add: inner_remove_ephemeral_def inner_resolve_def cong: option.case_cong)
qed

lemma inner_remove_None:
  assumes "fst (inner_remove n s) = None"
  shows "inner_resolve (snd (inner_remove n s)) d = inner_resolve s d"
proof (cases "position (\<lambda>q. domain q = n) (persistent_wildcard s)")
  case None
  with assms have "map_of (AList.delete n (persistent_exact s)) d = map_of (persistent_exact s) d"
    by (simp add: inner_remove_def table_simps)
  with None show ?thesis by (simp add: inner_remove_def inner_resolve_def cong: option.case_cong)
qed (use assms in \<open>simp add: inner_remove_def\<close>)

lemma inner_remove_ephemeral_None:
  assumes "fst (inner_remove_ephemeral n s) = None"
  shows "inner_resolve (snd (inner_remove_ephemeral n s)) d = inner_resolve s d"
proof (cases "position (\<lambda>q. domain q = n) (ephemeral_wildcard s)")
  case None
  with assms have "map_of (AList.delete n (ephemeral_exact s)) d = map_of (ephemeral_exact s) d"
    by (simp add: inner_remove_ephemeral_def table_simps)
  with None show ?thesis by (simp add: inner_remove_ephemeral_def inner_resolve_def cong: option.case_cong)
qed (use assms in \<open>simp add: inner_remove_ephemeral_def\<close>)

section \<open>Saving and reloading the persistent layer\<close>

lemma add_all_wild:
  "distinct (map domain (vs @ ws)) \<Longrightarrow> list_all is_wildcard ws \<Longrightarrow> persistent_wildcard s = vs \<Longrightarrow>
   fold inner_add ws s = s\<lparr>persistent_wildcard := vs @ ws\<rparr>"
proof (induction ws arbitrary: vs s)
  case (Cons w ws)
  have "domain w \<notin> domain ` set vs" using Cons.prems(1) by simp
  then have "filter (\<lambda>q. domain q \<noteq> domain w) vs = vs"
    by (intro filter_True) (metis imageI)
  with Cons.prems have "inner_add w s = s\<lparr>persistent_wildcard := vs @ [w]\<rparr>"
    by (simp add: inner_add_def)
  moreover have "fold inner_add ws (s\<lparr>persistent_wildcard := vs @ [w]\<rparr>) =
      s\<lparr>persistent_wildcard := vs @ [w]\<rparr>\<lparr>persistent_wildcard := (vs @ [w]) @ ws\<rparr>"
    using Cons.prems by (intro Cons.IH) auto
  ultimately show ?case by simp
qed simp

lemma add_all_exact:
  "\<forall>r\<in>set es. \<not> is_wildcard r \<Longrightarrow>
   fold inner_add es s = s\<lparr>persistent_exact := fold (\<lambda>r. AList.update (domain r) r) es (persistent_exact s)\<rparr>"
  by (induction es arbitrary: s) (simp_all add: inner_add_def)

lemma exact_ok_values:
  assumes "exact_ok m" "mset es = mset (map snd m)"
  shows "\<forall>r\<in>set es. \<not> is_wildcard r" "distinct (map domain es)"
    "set (map (\<lambda>r. (domain r, r)) es) = set m"
proof -
  have keys: "map domain (map snd m) = map fst m" "map (\<lambda>r. (domain r, r)) (map snd m) = m"
    using assms(1) by (induction m) (auto simp: exact_ok_def table_ok_def)
  from assms(2) have st: "set es = set (map snd m)" by (rule mset_eq_setD)
  with assms(1) show "\<forall>r\<in>set es. \<not> is_wildcard r" by (auto simp: exact_ok_def list_all_iff)
  have "mset (map domain es) = mset (map domain (map snd m))"
    using assms(2) by (simp only: mset_map)
  then have "mset (map domain es) = mset (map fst m)" by (simp only: keys)
  then show "distinct (map domain es)"
    using assms(1) by (metis exact_ok_def mset_eq_imp_distinct_iff table_ok_def)
  have "set (map (\<lambda>r. (domain r, r)) es) = set (map (\<lambda>r. (domain r, r)) (map snd m))"
    using st by (simp only: set_map)
  then show "set (map (\<lambda>r. (domain r, r)) es) = set m" by (simp only: keys)
qed

lemma map_of_reload:
  assumes "exact_ok m" "mset es = mset (map snd m)"
  shows "map_of (fold (\<lambda>r. AList.update (domain r) r) es []) = map_of m"
proof -
  note v = exact_ok_values [OF assms]
  let ?s = "fold inner_add es inner_new"
  have "?s = inner_new\<lparr>persistent_exact := fold (\<lambda>r. AList.update (domain r) r) es []\<rparr>"
    using add_all_exact [OF v(1), of inner_new] by (simp add: inner_new_def)
  then have "map_of (fold (\<lambda>r. AList.update (domain r) r) es []) = persistent ?s"
    by (simp add: persistent_def inner_new_def)
  also have "\<dots> = map_of (rev (map (\<lambda>r. (domain r, r)) es))"
    by (simp add: pers.fold_add) (simp add: persistent_def inner_new_def)
  also have "\<dots> = map_of (map (\<lambda>r. (domain r, r)) es)"
    using v(2) by (intro map_of_inject_set [THEN iffD2]) (simp_all add: rev_map [symmetric] comp_def)
  also have "\<dots> = map_of m"
    using v(2,3) assms(1)
    by (intro map_of_inject_set [THEN iffD2]) (simp_all add: comp_def exact_ok_def table_ok_def)
  finally show ?thesis .
qed

lemma reload_state:
  assumes "store_inv s" and "mset es = mset (map snd (persistent_exact s))"
  shows "\<exists>t. inner_add_all (es @ persistent_wildcard s) inner_new =
      inner_new\<lparr>persistent_exact := t, persistent_wildcard := persistent_wildcard s\<rparr> \<and>
    map_of t = map_of (persistent_exact s)"
proof -
  have m: "exact_ok (persistent_exact s)" "wild_ok (persistent_wildcard s)"
    using assms(1) by (auto simp: store_inv_def)
  let ?t = "fold (\<lambda>r. AList.update (domain r) r) es []"
  have "fold inner_add es inner_new = inner_new\<lparr>persistent_exact := ?t\<rparr>"
    using add_all_exact [OF exact_ok_values(1) [OF m(1) assms(2)], of inner_new]
    by (simp add: inner_new_def)
  moreover have "fold inner_add (persistent_wildcard s) (inner_new\<lparr>persistent_exact := ?t\<rparr>) =
      inner_new\<lparr>persistent_exact := ?t, persistent_wildcard := [] @ persistent_wildcard s\<rparr>"
    using m(2) by (intro add_all_wild) (auto simp: wild_ok_def inner_new_def)
  ultimately have "inner_add_all (es @ persistent_wildcard s) inner_new =
      inner_new\<lparr>persistent_exact := ?t, persistent_wildcard := persistent_wildcard s\<rparr>"
    by (simp add: inner_add_all_def)
  with map_of_reload [OF m(1) assms(2)] show ?thesis by blast
qed

section \<open>Properties\<close>

text \<open>
  C8. Resolution honours the documented priority. A store that satisfies the invariant resolves
  a domain to a rule that matches it and no rule of better rank (ephemeral exact, ephemeral
  wildcard, persistent exact, persistent wildcard) matches the domain; it answers nothing
  exactly when no rule of either layer matches.
\<close>

theorem inner_resolve_priority:
  assumes "store_inv s"
  shows "case inner_resolve s d of
      Some r \<Rightarrow> matches r d \<and>
        (\<exists>k. (k, r) \<in> set (ranked s) \<and> (\<forall>(j, q) \<in> set (ranked s). matches q d \<longrightarrow> k \<le> j))
    | None \<Rightarrow> (\<forall>r \<in> set (all_rules s). \<not> matches r d)"
proof -
  have srt: "sorted (map fst (ranked s))"
    by (auto simp: ranked_def sorted_append comp_def map_replicate_const)
  have res: "inner_resolve s d = map_option snd (find (\<lambda>p. matches (snd p) d) (ranked s))"
    unfolding inner_resolve_find [OF assms] snd_ranked [symmetric] by (rule find_map)
  show ?thesis
  proof (cases "find (\<lambda>p. matches (snd p) d) (ranked s)")
    case None
    then have "\<forall>r \<in> set (map snd (ranked s)). \<not> matches r d" by (auto simp: find_None_iff)
    with None res show ?thesis by (simp add: snd_ranked)
  next
    case (Some p)
    with find_SomeD [OF Some] find_sorted_least [OF srt Some] res show ?thesis
      by (cases p) fastforce
  qed
qed

theorem inner_resolve_priority_witness:
  "store_inv (inner_add_ephemeral (local_rule ''*.b.io'' 1 False) (inner_add (local_rule ''a.b.io'' 2 False) inner_new)) \<and>
   inner_resolve (inner_add_ephemeral (local_rule ''*.b.io'' 1 False) (inner_add (local_rule ''a.b.io'' 2 False) inner_new))
     ''a.b.io'' = Some (local_rule ''*.b.io'' 1 False)"
proof -
  let ?s = "inner_add_ephemeral (local_rule ''*.b.io'' 1 False) (inner_add (local_rule ''a.b.io'' 2 False) inner_new)"
  have inv: "store_inv ?s" by (intro store_inv_intros)
  have rk: "ranked ?s = [(1, local_rule ''*.b.io'' 1 False), (2, local_rule ''a.b.io'' 2 False)]"
    "all_rules ?s = [local_rule ''*.b.io'' 1 False, local_rule ''a.b.io'' 2 False]"
    by (simp_all add: inner_add_ephemeral_def inner_add_def is_wildcard_def inner_new_def ranked_def all_rules_def)
  have "matches (local_rule ''*.b.io'' 1 False) ''a.b.io''"
    by (simp add: matches_def dotted_suffix_def ends_with_def)
  with inner_resolve_priority [OF inv, of "''a.b.io''"] inv rk show ?thesis
    by (auto split: option.splits)
qed

text \<open>
  Persistent rules survive a restart. Whatever order the hash map lists its values in,
  adding a saved snapshot to a fresh store restores the persistent layer: the same rule under
  every exact name and the same vector of wildcards in the same order; hence every domain
  resolves as it did before with the ephemeral rules gone.
\<close>

theorem reload_persistent_rules:
  assumes "store_inv s" and "mset es = mset (map snd (persistent_exact s))"
  shows "inner_resolve (inner_add_all (es @ persistent_wildcard s) inner_new) d =
      inner_resolve (s\<lparr>ephemeral_exact := [], ephemeral_wildcard := []\<rparr>) d \<and>
    persistent (inner_add_all (es @ persistent_wildcard s) inner_new) = persistent s \<and>
    persistent_wildcard (inner_add_all (es @ persistent_wildcard s) inner_new) = persistent_wildcard s"
proof -
  obtain t where "inner_add_all (es @ persistent_wildcard s) inner_new =
      inner_new\<lparr>persistent_exact := t, persistent_wildcard := persistent_wildcard s\<rparr>"
    and "map_of t = map_of (persistent_exact s)"
    using reload_state [OF assms] by blast
  then show ?thesis
    by (simp add: inner_resolve_def persistent_def layer_of_def fun_eq_iff inner_new_def
      cong: option.case_cong)
qed

theorem reload_persistent_rules_witness:
  "\<exists>s es. store_inv s \<and> mset es = mset (map snd (persistent_exact s)) \<and> es \<noteq> map snd (persistent_exact s) \<and>
     inner_resolve (inner_add_all (es @ persistent_wildcard s) inner_new) ''a.io'' =
       Some (local_rule ''a.io'' 1 False)"
proof -
  let ?a = "local_rule ''a.io'' 1 False" and ?b = "local_rule ''b.io'' 2 False"
  let ?s = "inner_add_ephemeral ?b (inner_add ?b (inner_add ?a inner_new))"
  have pe: "persistent_exact ?s = [(''a.io'', ?a), (''b.io'', ?b)]" "persistent_wildcard ?s = []"
    by (simp_all add: inner_add_def inner_add_ephemeral_def is_wildcard_def inner_new_def)
  have inv: "store_inv ?s" by (intro store_inv_intros)
  have ms: "mset [?b, ?a] = mset (map snd (persistent_exact ?s))" by (simp add: pe)
  have "inner_resolve (?s\<lparr>ephemeral_exact := [], ephemeral_wildcard := []\<rparr>) ''a.io'' = Some ?a"
    by (simp add: inner_resolve_def pe find_wildcard_def)
  moreover have "[?b, ?a] \<noteq> map snd (persistent_exact ?s)" unfolding pe by (simp add: dns_rule_new_def)
  ultimately show ?thesis
    using reload_persistent_rules [OF inv ms, of "''a.io''"] inv ms
    by (intro exI [of _ ?s] exI [of _ "[?b, ?a]"]) simp
qed

text \<open>
  \<^verbatim>\<open>Vec::swap_remove\<close> makes removal reorder the wildcards that stay. Two overlapping
  wildcards keep the order of insertion until an unrelated rule is removed; then a domain that
  the removed rule does not match resolves to another target.
\<close>

theorem remove_reorders_wildcards:
  "let s = inner_add_all [local_rule ''*.q.io'' 1 False, local_rule ''*.b.io'' 2 False,
         local_rule ''*.a.b.io'' 3 False] inner_new
   in store_inv s \<and> fst (inner_remove ''*.q.io'' s) = Some (local_rule ''*.q.io'' 1 False) \<and>
      \<not> matches (local_rule ''*.q.io'' 1 False) ''x.a.b.io'' \<and>
      inner_resolve s ''x.a.b.io'' = Some (local_rule ''*.b.io'' 2 False) \<and>
      inner_resolve (snd (inner_remove ''*.q.io'' s)) ''x.a.b.io'' = Some (local_rule ''*.a.b.io'' 3 False)"
proof -
  let ?rs = "[local_rule ''*.q.io'' 1 False, local_rule ''*.b.io'' 2 False, local_rule ''*.a.b.io'' 3 False]"
  have s: "inner_add_all ?rs inner_new = inner_new\<lparr>persistent_wildcard := ?rs\<rparr>"
    by (simp add: inner_add_all_def inner_add_def is_wildcard_def inner_new_def)
  have "store_inv (inner_add_all ?rs inner_new)" by (intro store_inv_intros)
  then show ?thesis
    unfolding s Let_def
    by (simp add: inner_remove_def inner_resolve_def find_wildcard_def swap_remove_def inner_new_def
      matches_def dotted_suffix_def ends_with_def)
qed

end
