(* ===== verification/RuleStore.thy ===== *)
theory RuleStore
  imports Store
begin

text \<open>
  \<^verbatim>\<open>RuleStore\<close> of \<^verbatim>\<open>core/src/store.rs\<close>: shared access to an \<^verbatim>\<open>InnerRuleStore\<close> behind an
  \<^verbatim>\<open>ArcSwap\<close>. Each method is first given as one atomic step on the content of the cell. A
  writer really runs \<^verbatim>\<open>ArcSwap::rcu\<close>: it loads the current pointer, computes a new store from
  it, and swaps if the pointer is still the one it loaded, else starts over from what it found.
  \<open>rcu_step\<close> is the interleaving of any number of such writers. The lemmas show that every run
  is a sequence of the atomic steps, each with the result its writer returns, and that every
  run ends. They justify the atomic steps used by the other components.

  The last section gives the abstract specification of the store, two finite maps, and the
  refinement of it.
\<close>

section \<open>The methods as atomic steps\<close>

definition store_resolve :: "inner_rule_store \<Rightarrow> string \<Rightarrow> dns_rule option" where
  "store_resolve s d = inner_resolve s d"

definition store_add :: "dns_rule \<Rightarrow> inner_rule_store \<Rightarrow> dns_rule \<times> inner_rule_store" where
  "store_add r s = (r, inner_add r s)"

definition store_add_all :: "dns_rule list \<Rightarrow> inner_rule_store \<Rightarrow> nat \<times> inner_rule_store" where
  "store_add_all rs s = (length rs, inner_add_all rs s)"

definition store_add_ephemeral :: "dns_rule \<Rightarrow> inner_rule_store \<Rightarrow> dns_rule \<times> inner_rule_store" where
  "store_add_ephemeral r s = (r, inner_add_ephemeral r s)"

definition store_remove :: "string \<Rightarrow> inner_rule_store \<Rightarrow> dns_rule option \<times> inner_rule_store" where
  "store_remove d s = inner_remove d s"

definition store_remove_ephemeral :: "string \<Rightarrow> inner_rule_store \<Rightarrow> dns_rule option \<times> inner_rule_store" where
  "store_remove_ephemeral d s = inner_remove_ephemeral d s"

definition snapshot_persistent :: "inner_rule_store \<Rightarrow> dns_rule list" where
  "snapshot_persistent s = persistent_rules s"

definition snapshot_all :: "inner_rule_store \<Rightarrow> dns_rule list" where
  "snapshot_all s = all_rules s"

definition store_len :: "inner_rule_store \<Rightarrow> nat" where
  "store_len s = inner_len s"

definition store_is_empty :: "inner_rule_store \<Rightarrow> bool" where
  "store_is_empty s = inner_is_empty s"

section \<open>Writers that race\<close>

text \<open>The calls that go through \<^verbatim>\<open>rcu\<close>, and what they return.\<close>

datatype store_op =
    OpAdd dns_rule
  | OpAddAll "dns_rule list"
  | OpAddEphemeral dns_rule
  | OpRemove string
  | OpRemoveEphemeral string

datatype store_result = Added dns_rule | AddedMany nat | Removed "dns_rule option"

fun store_apply :: "store_op \<Rightarrow> inner_rule_store \<Rightarrow> store_result \<times> inner_rule_store" where
  "store_apply (OpAdd r) s = map_prod Added id (store_add r s)"
| "store_apply (OpAddAll rs) s = map_prod AddedMany id (store_add_all rs s)"
| "store_apply (OpAddEphemeral r) s = map_prod Added id (store_add_ephemeral r s)"
| "store_apply (OpRemove d) s = map_prod Removed id (store_remove d s)"
| "store_apply (OpRemoveEphemeral d) s = map_prod Removed id (store_remove_ephemeral d s)"

text \<open>
  A writer has called an operation, or is in the \<^verbatim>\<open>rcu\<close> loop with the pointer and the content
  it loaded, or has returned. A pointer is a number that no other content of the cell has.
\<close>

datatype writer = Calling store_op | Looping store_op nat inner_rule_store | Returned store_result

record rcu_state =
  cell_ptr :: nat
  cell :: inner_rule_store
  writers :: "writer list"
  history :: "(nat \<times> store_op \<times> store_result) list"

definition rcu_init :: "store_op list \<Rightarrow> inner_rule_store \<Rightarrow> rcu_state" where
  "rcu_init ops s = \<lparr>cell_ptr = 0, cell = s, writers = map Calling ops, history = []\<rparr>"

inductive rcu_step :: "rcu_state \<Rightarrow> rcu_state \<Rightarrow> bool" where
  load: "i < length (writers s) \<Longrightarrow> writers s ! i = Calling op \<Longrightarrow>
     rcu_step s (s\<lparr>writers := (writers s)[i := Looping op (cell_ptr s) (cell s)]\<rparr>)"
| swap: "i < length (writers s) \<Longrightarrow> writers s ! i = Looping op p v \<Longrightarrow> p = cell_ptr s \<Longrightarrow>
     store_apply op v = (res, v') \<Longrightarrow>
     rcu_step s (s\<lparr>cell_ptr := Suc p, cell := v', writers := (writers s)[i := Returned res],
       history := history s @ [(i, op, res)]\<rparr>)"
| retry: "i < length (writers s) \<Longrightarrow> writers s ! i = Looping op p v \<Longrightarrow> p \<noteq> cell_ptr s \<Longrightarrow>
     rcu_step s (s\<lparr>writers := (writers s)[i := Looping op (cell_ptr s) (cell s)]\<rparr>)"

abbreviation rcu_steps :: "rcu_state \<Rightarrow> rcu_state \<Rightarrow> bool" where
  "rcu_steps \<equiv> rcu_step\<^sup>*\<^sup>*"

text \<open>The history replayed as a sequential program from the initial content.\<close>

fun replay :: "inner_rule_store \<Rightarrow> (nat \<times> store_op \<times> store_result) list \<Rightarrow> inner_rule_store option" where
  "replay s [] = Some s"
| "replay s ((i, op, res) # h) =
     (case store_apply op s of (res', s') \<Rightarrow> if res' = res then replay s' h else None)"

lemma replay_append: "replay s (h @ h') = Option.bind (replay s h) (\<lambda>s'. replay s' h')"
  by (induction s h rule: replay.induct) (auto split: prod.splits)

lemma store_apply_inv: "store_inv s \<Longrightarrow> store_inv (snd (store_apply op s))"
  by (cases op) (simp_all add: store_add_def store_add_all_def store_add_ephemeral_def
    store_remove_def store_remove_ephemeral_def map_prod_def split_beta store_inv_intros)

lemma replay_inv: "store_inv s \<Longrightarrow> replay s h = Some s' \<Longrightarrow> store_inv s'"
proof (induction s h rule: replay.induct)
  case (2 s i op res h)
  then show ?case using store_apply_inv [of s op] by (auto split: prod.splits if_splits)
qed simp

text \<open>What holds in every reachable state of the race.\<close>

definition writer_ok :: "store_op list \<Rightarrow> rcu_state \<Rightarrow> nat \<Rightarrow> bool" where
  "writer_ok ops s i =
     (case writers s ! i of
        Calling op \<Rightarrow> op = ops ! i \<and> i \<notin> fst ` set (history s)
      | Looping op p v \<Rightarrow> op = ops ! i \<and> i \<notin> fst ` set (history s) \<and> p \<le> cell_ptr s \<and>
          (p = cell_ptr s \<longrightarrow> v = cell s)
      | Returned res \<Rightarrow> (i, ops ! i, res) \<in> set (history s))"

definition rcu_inv :: "store_op list \<Rightarrow> inner_rule_store \<Rightarrow> rcu_state \<Rightarrow> bool" where
  "rcu_inv ops s0 s = (length (writers s) = length ops \<and> replay s0 (history s) = Some (cell s) \<and>
     distinct (map fst (history s)) \<and> fst ` set (history s) \<subseteq> {..<length ops} \<and>
     (\<forall>i < length ops. writer_ok ops s i))"

lemma rcu_inv_init: "rcu_inv ops s (rcu_init ops s)"
  by (simp add: rcu_inv_def rcu_init_def writer_ok_def)

lemma rcu_inv_loaded:
  assumes "rcu_inv ops s0 s" "i < length (writers s)" "writers s ! i = w"
    and "w = Calling op \<or> w = Looping op p v"
  shows "rcu_inv ops s0 (s\<lparr>writers := (writers s)[i := Looping op (cell_ptr s) (cell s)]\<rparr>)"
    (is "rcu_inv ops s0 ?t")
proof -
  have len: "length (writers s) = length ops" using assms(1) by (simp add: rcu_inv_def)
  with assms have "writer_ok ops s i" by (simp add: rcu_inv_def)
  with assms(3,4) have ok: "op = ops ! i" "i \<notin> fst ` set (history s)"
    unfolding writer_ok_def by (elim disjE; simp)+
  have "writer_ok ops ?t j" if j: "j < length ops" for j
  proof (cases "j = i")
    case True
    with assms(2) ok show ?thesis by (simp add: writer_ok_def)
  next
    case False
    have "writer_ok ops s j" using assms(1) j by (simp add: rcu_inv_def)
    with False show ?thesis by (simp add: writer_ok_def split: writer.splits)
  qed
  with assms(1) show ?thesis by (simp add: rcu_inv_def)
qed

lemma rcu_inv_swap:
  assumes inv: "rcu_inv ops s0 s" and i: "i < length (writers s)"
    and w: "writers s ! i = Looping op p v" "p = cell_ptr s" and app: "store_apply op v = (res, v')"
  shows "rcu_inv ops s0 (s\<lparr>cell_ptr := Suc p, cell := v', writers := (writers s)[i := Returned res],
     history := history s @ [(i, op, res)]\<rparr>)" (is "rcu_inv ops s0 ?t")
proof -
  have len: "length (writers s) = length ops" using inv by (simp add: rcu_inv_def)
  with inv i have "writer_ok ops s i" by (simp add: rcu_inv_def)
  with w have ok: "op = ops ! i" "i \<notin> fst ` set (history s)" "v = cell s"
    by (simp_all add: writer_ok_def)
  have "replay s0 (history ?t) = Some v'"
    using inv ok app by (simp add: rcu_inv_def replay_append)
  moreover have "writer_ok ops ?t j" if j: "j < length ops" for j
  proof (cases "j = i")
    case True
    with i ok show ?thesis by (simp add: writer_ok_def)
  next
    case False
    have "writer_ok ops s j" using inv j by (simp add: rcu_inv_def)
    with False w(2) show ?thesis by (auto simp: writer_ok_def split: writer.splits)
  qed
  ultimately show ?thesis using inv ok i len by (auto simp: rcu_inv_def)
qed

lemma rcu_inv_step: "rcu_step s t \<Longrightarrow> rcu_inv ops s0 s \<Longrightarrow> rcu_inv ops s0 t"
  by (induction rule: rcu_step.induct) (auto intro: rcu_inv_loaded rcu_inv_swap)

lemma rcu_inv_steps: "rcu_steps s t \<Longrightarrow> rcu_inv ops s0 s \<Longrightarrow> rcu_inv ops s0 t"
  by (induction rule: rtranclp_induct) (auto intro: rcu_inv_step)

section \<open>Every race ends\<close>

text \<open>
  Three counts fall lexicographically: writers that have not returned, writers that have not
  loaded, and writers whose loaded pointer is out of date. A swap lowers the first (and makes
  others stale); a load lowers the second; a retry lowers the third.
\<close>

definition count_writers :: "(writer \<Rightarrow> bool) \<Rightarrow> rcu_state \<Rightarrow> nat" where
  "count_writers P s = length (filter P (writers s))"

fun unreturned :: "writer \<Rightarrow> bool" where
  "unreturned (Returned res) = False"
| "unreturned w = True"

fun calling :: "writer \<Rightarrow> bool" where
  "calling (Calling op) = True"
| "calling w = False"

fun stale :: "nat \<Rightarrow> writer \<Rightarrow> bool" where
  "stale ptr (Looping op p v) = (p \<noteq> ptr)"
| "stale ptr w = False"

definition rcu_measure :: "(rcu_state \<times> rcu_state) set" where
  "rcu_measure = measures [count_writers unreturned, count_writers calling,
     \<lambda>s. count_writers (stale (cell_ptr s)) s]"

lemma length_filter_update:
  "i < length xs \<Longrightarrow> length (filter P (xs[i := x])) + (if P (xs ! i) then 1 else 0) =
     length (filter P xs) + (if P x then 1 else 0)"
proof (induction xs arbitrary: i)
  case (Cons y ys)
  then show ?case by (cases i) (auto split: if_splits)
qed simp

lemma rcu_step_decreases: "rcu_step s t \<Longrightarrow> (t, s) \<in> rcu_measure"
proof (induction rule: rcu_step.induct)
  case (load i s op)
  then show ?case
    using length_filter_update [OF load(1), of unreturned "Looping op (cell_ptr s) (cell s)"]
      length_filter_update [OF load(1), of calling "Looping op (cell_ptr s) (cell s)"]
    by (simp add: rcu_measure_def count_writers_def)
next
  case (swap i s op p v res v')
  then show ?case
    using length_filter_update [OF swap(1), of unreturned "Returned res"]
    by (simp add: rcu_measure_def count_writers_def)
next
  case (retry i s op p v)
  then show ?case
    using length_filter_update [OF retry(1), of unreturned "Looping op (cell_ptr s) (cell s)"]
      length_filter_update [OF retry(1), of calling "Looping op (cell_ptr s) (cell s)"]
      length_filter_update [OF retry(1), of "stale (cell_ptr s)" "Looping op (cell_ptr s) (cell s)"]
    by (simp add: rcu_measure_def count_writers_def)
qed

lemma wf_rcu_measure: "wf rcu_measure"
  by (simp add: rcu_measure_def)

lemma rcu_progress:
  assumes "i < length (writers s)" "unreturned (writers s ! i)"
  shows "\<exists>t. rcu_step s t"
proof (cases "writers s ! i")
  case (Calling op)
  with assms(1) show ?thesis by (blast intro: rcu_step.load)
next
  case (Looping op p v)
  obtain res v' where "store_apply op v = (res, v')" by fastforce
  with Looping assms(1) show ?thesis
    by (cases "p = cell_ptr s") (auto intro!: exI intro: rcu_step.retry rcu_step.swap)
qed (use assms(2) in simp)

section \<open>The specification: two maps\<close>

record store_spec =
  spec_persistent :: "string \<Rightarrow> dns_rule option"
  spec_ephemeral :: "string \<Rightarrow> dns_rule option"

definition store_abs :: "inner_rule_store \<Rightarrow> store_spec" where
  "store_abs s = \<lparr>spec_persistent = persistent s, spec_ephemeral = ephemeral s\<rparr>"

fun spec_apply :: "store_op \<Rightarrow> store_spec \<Rightarrow> store_result \<times> store_spec" where
  "spec_apply (OpAdd r) a = (Added r, a\<lparr>spec_persistent := (spec_persistent a)(domain r \<mapsto> r)\<rparr>)"
| "spec_apply (OpAddAll rs) a =
     (AddedMany (length rs), a\<lparr>spec_persistent := fold (\<lambda>r m. m(domain r \<mapsto> r)) rs (spec_persistent a)\<rparr>)"
| "spec_apply (OpAddEphemeral r) a = (Added r, a\<lparr>spec_ephemeral := (spec_ephemeral a)(domain r \<mapsto> r)\<rparr>)"
| "spec_apply (OpRemove d) a =
     (Removed (spec_persistent a d), a\<lparr>spec_persistent := (spec_persistent a)(d := None)\<rparr>)"
| "spec_apply (OpRemoveEphemeral d) a =
     (Removed (spec_ephemeral a d), a\<lparr>spec_ephemeral := (spec_ephemeral a)(d := None)\<rparr>)"

lemma ephemeral_add_all [simp]: "ephemeral (inner_add_all rs s) = ephemeral s"
  by (induction rs arbitrary: s) (simp_all add: inner_add_all_def)

lemma persistent_add_all:
  "store_inv s \<Longrightarrow> persistent (inner_add_all rs s) = fold (\<lambda>r m. m(domain r \<mapsto> r)) rs (persistent s)"
  by (induction rs arbitrary: s) (simp_all add: inner_add_all_def pers.add_inv pers.layer_add)

lemmas store_method_defs = store_add_def store_add_all_def store_add_ephemeral_def store_remove_def
  store_remove_ephemeral_def

text \<open>What the two maps say about the queries of the store.\<close>

definition best_in :: "(string \<Rightarrow> dns_rule option) \<Rightarrow> string \<Rightarrow> dns_rule \<Rightarrow> bool" where
  "best_in m d r = (r \<in> ran m \<and> matches r d \<and> (is_wildcard r \<longrightarrow> (\<forall>q\<in>ran m. matches q d \<longrightarrow> is_wildcard q)))"

definition no_match :: "(string \<Rightarrow> dns_rule option) \<Rightarrow> string \<Rightarrow> bool" where
  "no_match m d = (\<forall>q\<in>ran m. \<not> matches q d)"

fun spec_resolves :: "store_spec \<Rightarrow> string \<Rightarrow> dns_rule option \<Rightarrow> bool" where
  "spec_resolves a d (Some r) = (best_in (spec_ephemeral a) d r \<or>
     no_match (spec_ephemeral a) d \<and> best_in (spec_persistent a) d r)"
| "spec_resolves a d None = (no_match (spec_ephemeral a) d \<and> no_match (spec_persistent a) d)"

lemma exact_rules: "exact_ok m \<Longrightarrow> r \<in> snd ` set m \<Longrightarrow> \<not> is_wildcard r"
  by (auto simp: exact_ok_def list_all_iff)

lemma wild_rules: "wild_ok ws \<Longrightarrow> r \<in> set ws \<Longrightarrow> is_wildcard r"
  by (simp add: wild_ok_def list_all_iff)

lemma exact_get_iff: "exact_ok m \<Longrightarrow> map_of m d = Some r \<longleftrightarrow> domain r = d \<and> r \<in> snd ` set m"
  by (force simp: exact_ok_def list_all_iff table_ok_def)

lemma layer_of_Some_iff:
  assumes "exact_ok m" "wild_ok ws"
  shows "layer_of m ws d = Some r \<longleftrightarrow> domain r = d \<and> r \<in> snd ` set m \<union> set ws"
proof (cases "map_of (map (\<lambda>r. (domain r, r)) ws) d")
  case None
  then have "layer_of m ws d = map_of m d" by (simp add: layer_of_def)
  moreover from None have "\<forall>r\<in>set ws. domain r \<noteq> d" by (simp only: wild_get_None)
  ultimately show ?thesis using exact_get_iff [OF assms(1), of d r] by auto
next
  case (Some q)
  then have q: "q \<in> set ws" "domain q = d" by (simp_all add: wild_get [OF assms(2)])
  with assms have "r \<notin> snd ` set m" if "domain r = d"
    using that is_wildcard_cong exact_rules wild_rules by metis
  moreover have "r = q" if "r \<in> set ws" "domain r = d"
    using that q assms(2) by (auto simp: wild_ok_def distinct_map inj_on_def)
  moreover from Some have "layer_of m ws d = Some q" by (simp add: layer_of_def)
  ultimately show ?thesis using q by auto
qed

lemma ran_layer_of:
  "exact_ok m \<Longrightarrow> wild_ok ws \<Longrightarrow> ran (layer_of m ws) = snd ` set m \<union> set ws"
  by (auto simp: ran_def layer_of_Some_iff)

lemma resolve_layer:
  assumes "exact_ok m" "wild_ok ws"
  shows "case (case map_of m d of Some r \<Rightarrow> Some r | None \<Rightarrow> find_wildcard ws d) of
      Some r \<Rightarrow> best_in (layer_of m ws) d r
    | None \<Rightarrow> no_match (layer_of m ws) d"
proof (cases "map_of m d")
  case (Some r)
  with assms show ?thesis
    using exact_get_iff [OF assms(1), of d r] exact_rules [OF assms(1), of r]
    by (simp add: best_in_def ran_layer_of matches_exact)
next
  case None
  then have n: "\<not> matches q d" if "q \<in> snd ` set m" for q
    using that exact_get_iff [OF assms(1), of d q] exact_rules [OF assms(1), of q]
    by (auto simp: matches_exact)
  show ?thesis
  proof (cases "find_wildcard ws d")
    case None
    then have "\<forall>q\<in>set ws. \<not> matches q d" by (simp add: find_wildcard_def find_None_iff)
    with n have "no_match (layer_of m ws) d" using assms by (auto simp: no_match_def ran_layer_of)
    with None \<open>map_of m d = None\<close> show ?thesis by simp
  next
    case (Some r)
    then have "r \<in> set ws" "matches r d" by (auto simp: find_wildcard_def find_Some_iff)
    with Some n \<open>map_of m d = None\<close> assms wild_rules [OF assms(2)] show ?thesis
      by (auto simp: best_in_def ran_layer_of)
  qed
qed

lemma inner_resolve_spec:
  assumes "store_inv s"
  shows "spec_resolves (store_abs s) d (inner_resolve s d)"
proof -
  from assms have ok: "exact_ok (ephemeral_exact s)" "wild_ok (ephemeral_wildcard s)"
    "exact_ok (persistent_exact s)" "wild_ok (persistent_wildcard s)"
    by (simp_all add: store_inv_def)
  show ?thesis
    using resolve_layer [OF ok(1,2), of d] resolve_layer [OF ok(3,4), of d]
    by (auto simp: inner_resolve_def store_abs_def persistent_def ephemeral_def split: option.splits)
qed

lemma resolve_ephemeral_free:
  assumes "store_inv s" "no_match (ephemeral s) d"
  shows "inner_resolve s d =
    (case map_of (persistent_exact s) d of Some r \<Rightarrow> Some r | None \<Rightarrow> find_wildcard (persistent_wildcard s) d)"
proof -
  from assms(1) have ok: "exact_ok (ephemeral_exact s)" "wild_ok (ephemeral_wildcard s)"
    by (simp_all add: store_inv_def)
  from resolve_layer [OF ok, of d] assms(2)
  have "map_of (ephemeral_exact s) d = None" "find_wildcard (ephemeral_wildcard s) d = None"
    by (auto simp: best_in_def no_match_def ephemeral_def split: option.splits)
  then show ?thesis by (simp add: inner_resolve_def cong: option.case_cong)
qed

lemma persistent_rules_spec:
  assumes "store_inv s"
  shows "distinct (map domain (persistent_rules s))" "set (persistent_rules s) = ran (persistent s)"
proof -
  from assms have ok: "exact_ok (persistent_exact s)" "wild_ok (persistent_wildcard s)"
    by (simp_all add: store_inv_def)
  then show "set (persistent_rules s) = ran (persistent s)"
    by (auto simp: persistent_rules_def persistent_def ran_layer_of)
  have names: "map domain (map snd (persistent_exact s)) = map fst (persistent_exact s)"
    using ok(1) by (auto simp: exact_ok_def list_all_iff)
  then have keys: "fst ` set (persistent_exact s) = domain ` snd ` set (persistent_exact s)"
    by (metis set_map)
  have "domain ` snd ` set (persistent_exact s) \<inter> domain ` set (persistent_wildcard s) = {}"
    using exact_rules [OF ok(1)] wild_rules [OF ok(2)] is_wildcard_cong by blast
  then show "distinct (map domain (persistent_rules s))"
    using ok names unfolding keys [symmetric] persistent_rules_def map_append distinct_append
    by (simp only: exact_ok_def wild_ok_def table_ok_def set_map simp_thms)
qed

lemma card_dom_layer:
  assumes "exact_ok m" "wild_ok ws"
  shows "card (dom (layer_of m ws)) = length m + length ws"
proof -
  have "dom (layer_of m ws) = fst ` set m \<union> domain ` set ws"
    using assms by (auto simp: dom_def layer_of_Some_iff exact_ok_def list_all_iff) force+
  moreover have "fst ` set m = domain ` snd ` set m"
    using assms(1) by (force simp: exact_ok_def list_all_iff)
  moreover have "domain ` snd ` set m \<inter> domain ` set ws = {}"
    using exact_rules [OF assms(1)] wild_rules [OF assms(2)] is_wildcard_cong by blast
  ultimately show ?thesis
    using assms distinct_card [of "map fst m"] distinct_card [of "map domain ws"]
    by (simp add: card_Un_disjoint exact_ok_def wild_ok_def table_ok_def)
qed

lemma inner_len_spec:
  assumes "store_inv s"
  shows "inner_len s = card (dom (ephemeral s)) + card (dom (persistent s))"
  using assms by (simp add: store_inv_def ephemeral_def persistent_def card_dom_layer inner_len_def)

section \<open>Properties\<close>

text \<open>
  C7. The store implements two independent finite maps. Under the invariant, each operation
  returns what the specification returns, the content it leaves abstracts to what the
  specification leaves, and it keeps the invariant: adding replaces the rule of that name in
  that layer only, removing returns the rule that was there and forgets it.
\<close>

theorem store_refines_spec:
  assumes "store_inv s"
  shows "spec_apply op (store_abs s) = map_prod id store_abs (store_apply op s) \<and>
    store_inv (snd (store_apply op s))"
proof
  show "store_inv (snd (store_apply op s))" using assms by (rule store_apply_inv)
  show "spec_apply op (store_abs s) = map_prod id store_abs (store_apply op s)"
    using assms
    by (cases op)
       (simp_all add: store_abs_def store_method_defs map_prod_def split_beta pers.layer_add
         eph.layer_add pers.layer_remove eph.layer_remove pers.removed eph.removed persistent_add_all)
qed

theorem store_refines_spec_witness:
  "store_inv inner_new \<and>
   spec_apply (OpAdd (local_rule ''a.io'' 1 False)) (store_abs inner_new) =
     map_prod id store_abs (store_apply (OpAdd (local_rule ''a.io'' 1 False)) inner_new)"
  using store_refines_spec [OF store_inv_new, of "OpAdd (local_rule ''a.io'' 1 False)"] by simp


text \<open>
  A race of two writers: both load the empty content, the second swaps first, and the first has
  to load again.
\<close>

lemma rcu_race_example:
  defines "a \<equiv> local_rule ''a.io'' 1 False" and "b \<equiv> local_rule ''b.io'' 2 False"
  shows "\<exists>s. rcu_steps (rcu_init [OpAdd a, OpAdd b] inner_new) s \<and>
    history s = [(1, OpAdd b, Added b), (0, OpAdd a, Added a)]"
proof -
  obtain v1 where v1: "store_apply (OpAdd b) inner_new = (Added b, v1)" by (simp add: store_add_def)
  obtain v2 where v2: "store_apply (OpAdd a) v1 = (Added a, v2)" by (simp add: store_add_def)
  let ?s0 = "rcu_init [OpAdd a, OpAdd b] inner_new"
  let ?s1 = "?s0\<lparr>writers := (writers ?s0)[0 := Looping (OpAdd a) (cell_ptr ?s0) (cell ?s0)]\<rparr>"
  let ?s2 = "?s1\<lparr>writers := (writers ?s1)[1 := Looping (OpAdd b) (cell_ptr ?s1) (cell ?s1)]\<rparr>"
  let ?s3 = "?s2\<lparr>cell_ptr := Suc 0, cell := v1, writers := (writers ?s2)[1 := Returned (Added b)],
    history := history ?s2 @ [(1, OpAdd b, Added b)]\<rparr>"
  let ?s4 = "?s3\<lparr>writers := (writers ?s3)[0 := Looping (OpAdd a) (cell_ptr ?s3) (cell ?s3)]\<rparr>"
  let ?s5 = "?s4\<lparr>cell_ptr := Suc 1, cell := v2, writers := (writers ?s4)[0 := Returned (Added a)],
    history := history ?s4 @ [(0, OpAdd a, Added a)]\<rparr>"
  have "rcu_step ?s0 ?s1" by (rule rcu_step.load) (simp_all add: rcu_init_def)
  moreover have "rcu_step ?s1 ?s2" by (rule rcu_step.load) (simp_all add: rcu_init_def)
  moreover have "rcu_step ?s2 ?s3"
    by (rule rcu_step.swap [where v = inner_new]) (use v1 in \<open>simp_all add: rcu_init_def\<close>)
  moreover have "rcu_step ?s3 ?s4"
    by (rule rcu_step.retry [where v = inner_new and p = 0]) (simp_all add: rcu_init_def)
  moreover have "rcu_step ?s4 ?s5"
    by (rule rcu_step.swap [where v = v1]) (use v2 in \<open>simp_all add: rcu_init_def\<close>)
  ultimately have "rcu_steps ?s0 ?s5"
    by (meson rtranclp.rtrancl_refl rtranclp.rtrancl_into_rtrancl)
  then show ?thesis by (intro exI [of _ ?s5]) (simp add: rcu_init_def)
qed



end
