(* ===== verification/State.thy ===== *)
theory State
  imports RuleStore Domain
begin

text \<open>
  The daemon's central state (core/src/state.rs) and the messages that act on it
  (core/src/ipc/message.rs).

  \<^item> \<open>app_state\<close> is \<^verbatim>\<open>AppState\<close>: the content of the rule store, the broadcast channel
    as the sequence of events sent on it so far, and whether the cancellation token is cancelled.
    What a receiver of the channel gets is an input of the tasks that receive.
  \<^item> \<^verbatim>\<open>confy\<close>, which reads and writes the configuration file, is a pair of functions on
    an abstract disk; \<open>confy_ok\<close> is the law of a successful write.
\<close>

section \<open>Messages\<close>

datatype ipc_request =
    Add string socket_addr bool
  | AddEphemeral string socket_addr bool
  | Remove string
  | RemoveEphemeral string
  | ListReq
  | Resolve string
  | StatusReq
  | Stop
  | Subscribe

datatype dns_event =
    RuleAdded dns_rule
  | RuleRemoved dns_rule
  | EphemeralAdded dns_rule
  | EphemeralRemoved dns_rule
  | DaemonStopped

datatype ipc_response =
    Ok
  | Error string
  | Rules "dns_rule list"
  | Resolved "dns_rule option"
  | StatusResp bool nat
  | Event dns_event

section \<open>The state\<close>

record app_state =
  store :: inner_rule_store
  events :: "dns_event list"
  token :: bool

record dns_config =
  rules :: "dns_rule list"

definition app_state_new :: "bool \<Rightarrow> app_state" where
  "app_state_new tok = \<lparr>store = inner_new, events = [], token = tok\<rparr>"

text \<open>\<^verbatim>\<open>dispatch\<close> tells whether some receiver is subscribed; the event is sent either way.\<close>

definition dispatch :: "nat \<Rightarrow> dns_event \<Rightarrow> app_state \<Rightarrow> bool \<times> app_state" where
  "dispatch receivers e st = (receivers > 0, st\<lparr>events := events st @ [e]\<rparr>)"

definition snapshot_permanent :: "app_state \<Rightarrow> dns_rule list" where
  "snapshot_permanent st = snapshot_persistent (store st)"

text \<open>The domains of all rules without repetition (the order is that of a hash set).\<close>

definition snapshot_all_domains :: "app_state \<Rightarrow> string list" where
  "snapshot_all_domains st = remdups (map domain (snapshot_all (store st)))"

section \<open>Persistence\<close>

text \<open>
  \<^verbatim>\<open>confy::store\<close> and \<^verbatim>\<open>confy::load\<close> as parameters: the first gives whether it
  succeeded and the disk it leaves, the second a configuration or nothing.
\<close>

type_synonym 'd confy_store = "dns_config \<Rightarrow> 'd \<Rightarrow> bool \<times> 'd"
type_synonym 'd confy_load = "'d \<Rightarrow> dns_config option"

definition save :: "'d confy_store \<Rightarrow> app_state \<Rightarrow> 'd \<Rightarrow> 'd" where
  "save confy st d = snd (confy \<lparr>rules = snapshot_permanent st\<rparr> d)"

definition load_rules :: "'d confy_load \<Rightarrow> 'd \<Rightarrow> app_state \<Rightarrow> dns_rule list \<times> app_state" where
  "load_rules confy d st =
     (let rs = (case confy d of Some c \<Rightarrow> rules c | None \<Rightarrow> []) in
      (rs, st\<lparr>store := snd (store_add_all rs (store st))\<rparr>))"

definition confy_ok :: "'d confy_store \<Rightarrow> 'd confy_load \<Rightarrow> dns_config \<Rightarrow> 'd \<Rightarrow> bool" where
  "confy_ok st ld c d = (fst (st c d) \<and> ld (snd (st c d)) = Some c)"

section \<open>The invariant of the state\<close>

text \<open>
  The store invariant, and that every rule has a valid name in lower case. The handler keeps it;
  rules read from the configuration file are only as good as the file.
\<close>

definition name_valid :: "dns_rule \<Rightarrow> bool" where
  "name_valid r = (validate_domain (domain r) \<and> to_lowercase (domain r) = domain r)"

definition app_inv :: "app_state \<Rightarrow> bool" where
  "app_inv st = (store_inv (store st) \<and> (\<forall>r\<in>set (all_rules (store st)). name_valid r))"

lemma app_inv_store [simp]: "app_inv st \<Longrightarrow> store_inv (store st)"
  by (simp add: app_inv_def)

lemma app_inv_new [simp]: "app_inv (app_state_new tok)"
  by (simp add: app_inv_def app_state_new_def all_rules_def inner_new_def)
    (simp add: store_inv_def exact_ok_def wild_ok_def)

lemma name_valid_new: "validate_domain d \<Longrightarrow> name_valid (dns_rule_new (to_lowercase d) t h)"
  by (simp add: name_valid_def dns_rule_new_def validate_domain_lower)

lemma set_update_snd: "snd ` set (AList.update k v m) \<subseteq> insert v (snd ` set m)"
  by (induction m) auto

lemma set_delete_snd: "snd ` set (AList.delete k m) \<subseteq> snd ` set m"
  by (auto simp: AList.delete_eq)

lemma set_all_rules:
  "set (all_rules s) = snd ` set (ephemeral_exact s) \<union> set (ephemeral_wildcard s) \<union>
     snd ` set (persistent_exact s) \<union> set (persistent_wildcard s)"
  by (auto simp: all_rules_def)

lemma all_rules_add:
  "set (all_rules (inner_add r s)) \<subseteq> insert r (set (all_rules s))"
  "set (all_rules (inner_add_ephemeral r s)) \<subseteq> insert r (set (all_rules s))"
  using set_update_snd [of "domain r" r "persistent_exact s"] set_update_snd [of "domain r" r "ephemeral_exact s"]
  by (auto simp: inner_add_def inner_add_ephemeral_def set_all_rules)

lemma wild_swap_subset:
  "wild_ok ws \<Longrightarrow> position (\<lambda>q. domain q = d) ws = Some i \<Longrightarrow> set (swap_remove i ws) \<subseteq> set ws"
  by (auto simp: set_wild_swap_remove(1))

lemma all_rules_remove:
  assumes "store_inv s"
  shows "set (all_rules (snd (inner_remove d s))) \<subseteq> set (all_rules s)"
    and "set (all_rules (snd (inner_remove_ephemeral d s))) \<subseteq> set (all_rules s)"
proof -
  from assms have w: "wild_ok (persistent_wildcard s)" "wild_ok (ephemeral_wildcard s)"
    by (simp_all add: store_inv_def)
  show "set (all_rules (snd (inner_remove d s))) \<subseteq> set (all_rules s)"
  proof (cases "position (\<lambda>q. domain q = d) (persistent_wildcard s)")
    case None
    with set_delete_snd [of d "persistent_exact s"] show ?thesis
      by (auto simp: inner_remove_def set_all_rules Let_def)
  next
    case (Some i)
    with set_delete_snd [of d "persistent_exact s"] wild_swap_subset [OF w(1) Some] show ?thesis
      by (auto simp: inner_remove_def set_all_rules Let_def)
  qed
  show "set (all_rules (snd (inner_remove_ephemeral d s))) \<subseteq> set (all_rules s)"
  proof (cases "position (\<lambda>q. domain q = d) (ephemeral_wildcard s)")
    case None
    with set_delete_snd [of d "ephemeral_exact s"] show ?thesis
      by (auto simp: inner_remove_ephemeral_def set_all_rules Let_def)
  next
    case (Some i)
    with set_delete_snd [of d "ephemeral_exact s"] wild_swap_subset [OF w(2) Some] show ?thesis
      by (auto simp: inner_remove_ephemeral_def set_all_rules Let_def)
  qed
qed

text \<open>One write of the store keeps the invariant if every rule it brings in has a valid name.\<close>

fun op_rules :: "store_op \<Rightarrow> dns_rule list" where
  "op_rules (OpAdd r) = [r]"
| "op_rules (OpAddAll rs) = rs"
| "op_rules (OpAddEphemeral r) = [r]"
| "op_rules (OpRemove d) = []"
| "op_rules (OpRemoveEphemeral d) = []"

lemma all_rules_add_all: "set (all_rules (inner_add_all rs s)) \<subseteq> set rs \<union> set (all_rules s)"
proof (induction rs arbitrary: s)
  case (Cons r rs)
  from Cons [of "inner_add r s"] all_rules_add(1) [of r s] show ?case
    by (auto simp: inner_add_all_def)
qed (simp add: inner_add_all_def)

lemma all_rules_apply:
  "store_inv s \<Longrightarrow> set (all_rules (snd (store_apply op s))) \<subseteq> set (op_rules op) \<union> set (all_rules s)"
  using all_rules_add all_rules_remove all_rules_add_all
  by (cases op) (auto simp: store_method_defs map_prod_def split_beta dest!: subsetD)

lemma app_inv_apply:
  assumes "app_inv st" "\<forall>r\<in>set (op_rules op). name_valid r"
  shows "app_inv (st\<lparr>store := snd (store_apply op (store st))\<rparr>)"
  using assms store_apply_inv [of "store st" op] all_rules_apply [of "store st" op]
  by (auto simp: app_inv_def dest!: subsetD)

lemma app_inv_events [simp]: "app_inv (st\<lparr>events := es\<rparr>) = app_inv st"
  and app_inv_token [simp]: "app_inv (st\<lparr>token := b\<rparr>) = app_inv st"
  by (simp_all add: app_inv_def)

end
