(* ===== verification/Ipc.thy ===== *)
theory Ipc
  imports State
begin

text \<open>
  The control channel of the daemon: the request handler (core/src/ipc/handler.rs), the
  server's treatment of one connection and of a subscriber (core/src/ipc/server.rs) and the
  client (core/src/ipc/client.rs).

  The third-party parts are the fields of a record \<open>wire\<close>: the JSON encoder and decoder of
  requests and responses, and the lines that a buffered reader yields from a byte stream. What
  they promise for a given message is \<open>carries_request\<close>, \<open>carries_response\<close> and
  \<open>reads_lines\<close>.
\<close>

section \<open>The request handler\<close>

text \<open>
  The macro \<^verbatim>\<open>validate_domain!\<close>: an invalid name ends the request with an error, a valid
  one is lowered before the rest of the arm runs.
\<close>

definition checked_domain ::
    "string \<Rightarrow> (string \<Rightarrow> app_state \<Rightarrow> ipc_response \<times> app_state) \<Rightarrow> app_state \<Rightarrow> ipc_response \<times> app_state" where
  "checked_domain d k st =
     (if \<not> validate_domain d then (Error (''Invalid domain name: '' @ d), st) else k (to_lowercase d) st)"

definition emit :: "dns_event \<Rightarrow> app_state \<Rightarrow> app_state" where
  "emit e st = st\<lparr>events := events st @ [e]\<rparr>"

definition handle_add :: "socket_addr \<Rightarrow> bool \<Rightarrow> string \<Rightarrow> app_state \<Rightarrow> ipc_response \<times> app_state" where
  "handle_add tgt secure d st =
     (let (rule, s) = store_add (dns_rule_new d tgt secure) (store st)
      in (Ok, emit (RuleAdded rule) (st\<lparr>store := s\<rparr>)))"

definition handle_add_ephemeral :: "socket_addr \<Rightarrow> bool \<Rightarrow> string \<Rightarrow> app_state \<Rightarrow> ipc_response \<times> app_state" where
  "handle_add_ephemeral tgt secure d st =
     (let (rule, s) = store_add_ephemeral (dns_rule_new d tgt secure) (store st)
      in (Ok, emit (EphemeralAdded rule) (st\<lparr>store := s\<rparr>)))"

definition handle_remove :: "string \<Rightarrow> app_state \<Rightarrow> ipc_response \<times> app_state" where
  "handle_remove d st =
     (let (removed, s) = store_remove d (store st); st' = st\<lparr>store := s\<rparr>
      in case removed of
           Some rule \<Rightarrow> (Ok, emit (RuleRemoved rule) st')
         | None \<Rightarrow> (Error (''No rule found for '' @ CHR 0x27 # d @ [CHR 0x27]), st'))"

definition handle_remove_ephemeral :: "string \<Rightarrow> app_state \<Rightarrow> ipc_response \<times> app_state" where
  "handle_remove_ephemeral d st =
     (let (removed, s) = store_remove_ephemeral d (store st); st' = st\<lparr>store := s\<rparr>
      in case removed of
           Some rule \<Rightarrow> (Ok, emit (EphemeralRemoved rule) st')
         | None \<Rightarrow> (Error (''No ephemeral rule found for '' @ CHR 0x27 # d @ [CHR 0x27]), st'))"

fun handle :: "ipc_request \<Rightarrow> app_state \<Rightarrow> ipc_response \<times> app_state" where
  "handle (Add d tgt secure) st = checked_domain d (handle_add tgt secure) st"
| "handle (AddEphemeral d tgt secure) st = checked_domain d (handle_add_ephemeral tgt secure) st"
| "handle (Remove d) st = checked_domain d handle_remove st"
| "handle (RemoveEphemeral d) st = checked_domain d handle_remove_ephemeral st"
| "handle ListReq st = (Rules (snapshot_persistent (store st)), st)"
| "handle (Resolve d) st = checked_domain d (\<lambda>n st. (Resolved (store_resolve (store st) n), st)) st"
| "handle StatusReq st = (StatusResp True (store_len (store st)), st)"
| "handle Stop st = (Ok, (emit DaemonStopped st)\<lparr>token := True\<rparr>)"
| "handle Subscribe st = (Ok, st)"

text \<open>A sequence of requests, answered one after the other.\<close>

fun handle_all :: "ipc_request list \<Rightarrow> app_state \<Rightarrow> ipc_response list \<times> app_state" where
  "handle_all [] st = ([], st)"
| "handle_all (r # rs) st =
     (let (resp, st') = handle r st; (resps, st'') = handle_all rs st' in (resp # resps, st''))"

section \<open>What a request does to the store\<close>

text \<open>The write of the store a valid request performs, and what an event says about it.\<close>

fun request_op :: "ipc_request \<Rightarrow> store_op option" where
  "request_op (Add d t h) = (if validate_domain d then Some (OpAdd (dns_rule_new (to_lowercase d) t h)) else None)"
| "request_op (AddEphemeral d t h) =
     (if validate_domain d then Some (OpAddEphemeral (dns_rule_new (to_lowercase d) t h)) else None)"
| "request_op (Remove d) = (if validate_domain d then Some (OpRemove (to_lowercase d)) else None)"
| "request_op (RemoveEphemeral d) = (if validate_domain d then Some (OpRemoveEphemeral (to_lowercase d)) else None)"
| "request_op r = None"

lemmas handler_defs = checked_domain_def handle_add_def handle_add_ephemeral_def handle_remove_def
  handle_remove_ephemeral_def emit_def Let_def split_beta

lemma handle_store:
  "store (snd (handle r st)) =
     (case request_op r of None \<Rightarrow> store st | Some op \<Rightarrow> snd (store_apply op (store st)))"
  by (cases r) (auto simp: handler_defs map_prod_def store_method_defs split: option.splits)

lemma request_op_valid: "request_op r = Some op \<Longrightarrow> \<forall>q\<in>set (op_rules op). name_valid q"
  by (cases r) (auto simp: name_valid_new split: if_splits)

lemma app_inv_cong: "store st = store st' \<Longrightarrow> app_inv st = app_inv st'"
  by (simp add: app_inv_def)

lemma handle_inv: "app_inv st \<Longrightarrow> app_inv (snd (handle r st))"
proof (cases "request_op r")
  case None
  assume "app_inv st"
  with None handle_store [of r st] show ?thesis by (simp cong: app_inv_cong add: app_inv_def)
next
  case (Some op)
  assume "app_inv st"
  from app_inv_apply [OF this request_op_valid [OF Some]] Some handle_store [of r st]
  show ?thesis by (simp add: app_inv_def)
qed

lemma handle_all_inv: "app_inv st \<Longrightarrow> app_inv (snd (handle_all rs st))"
  by (induction rs arbitrary: st) (simp_all add: Let_def split_beta handle_inv)

section \<open>The specification of the service\<close>

text \<open>
  Over the two maps of the store: the answer a request may get, the maps it leaves and the
  events it sends.
\<close>

abbreviation invalid_domain :: "string \<Rightarrow> ipc_response" where
  "invalid_domain d \<equiv> Error (''Invalid domain name: '' @ d)"

fun spec_answer :: "store_spec \<Rightarrow> ipc_request \<Rightarrow> ipc_response \<Rightarrow> bool" where
  "spec_answer a (Add d t h) x = (x = (if validate_domain d then Ok else invalid_domain d))"
| "spec_answer a (AddEphemeral d t h) x = (x = (if validate_domain d then Ok else invalid_domain d))"
| "spec_answer a (Remove d) x = (x =
     (if \<not> validate_domain d then invalid_domain d
      else if spec_persistent a (to_lowercase d) = None
      then Error (''No rule found for '' @ CHR 0x27 # to_lowercase d @ [CHR 0x27]) else Ok))"
| "spec_answer a (RemoveEphemeral d) x = (x =
     (if \<not> validate_domain d then invalid_domain d
      else if spec_ephemeral a (to_lowercase d) = None
      then Error (''No ephemeral rule found for '' @ CHR 0x27 # to_lowercase d @ [CHR 0x27]) else Ok))"
| "spec_answer a ListReq x =
     (\<exists>rs. x = Rules rs \<and> distinct (map domain rs) \<and> set rs = ran (spec_persistent a))"
| "spec_answer a (Resolve d) x =
     (if validate_domain d then \<exists>y. x = Resolved y \<and> spec_resolves a (to_lowercase d) y
      else x = invalid_domain d)"
| "spec_answer a StatusReq x =
     (x = StatusResp True (card (dom (spec_ephemeral a)) + card (dom (spec_persistent a))))"
| "spec_answer a Stop x = (x = Ok)"
| "spec_answer a Subscribe x = (x = Ok)"

definition spec_after :: "ipc_request \<Rightarrow> store_spec \<Rightarrow> store_spec" where
  "spec_after r a = (case request_op r of None \<Rightarrow> a | Some op \<Rightarrow> snd (spec_apply op a))"

fun op_event :: "store_op \<Rightarrow> store_spec \<Rightarrow> dns_event list" where
  "op_event (OpAdd r) a = [RuleAdded r]"
| "op_event (OpAddAll rs) a = []"
| "op_event (OpAddEphemeral r) a = [EphemeralAdded r]"
| "op_event (OpRemove d) a = (case spec_persistent a d of Some r \<Rightarrow> [RuleRemoved r] | None \<Rightarrow> [])"
| "op_event (OpRemoveEphemeral d) a = (case spec_ephemeral a d of Some r \<Rightarrow> [EphemeralRemoved r] | None \<Rightarrow> [])"

definition spec_events :: "ipc_request \<Rightarrow> store_spec \<Rightarrow> dns_event list" where
  "spec_events r a = (if r = Stop then [DaemonStopped] else
     case request_op r of None \<Rightarrow> [] | Some op \<Rightarrow> op_event op a)"

text \<open>The maps an observer builds from the events alone.\<close>

fun event_apply :: "dns_event \<Rightarrow> store_spec \<Rightarrow> store_spec" where
  "event_apply (RuleAdded r) a = a\<lparr>spec_persistent := (spec_persistent a)(domain r \<mapsto> r)\<rparr>"
| "event_apply (RuleRemoved r) a = a\<lparr>spec_persistent := (spec_persistent a)(domain r := None)\<rparr>"
| "event_apply (EphemeralAdded r) a = a\<lparr>spec_ephemeral := (spec_ephemeral a)(domain r \<mapsto> r)\<rparr>"
| "event_apply (EphemeralRemoved r) a = a\<lparr>spec_ephemeral := (spec_ephemeral a)(domain r := None)\<rparr>"
| "event_apply DaemonStopped a = a"

lemma spec_store_abs [simp]:
  "spec_persistent (store_abs s) = persistent s" "spec_ephemeral (store_abs s) = ephemeral s"
  by (simp_all add: store_abs_def)

lemma store_abs_apply:
  "store_inv s \<Longrightarrow> store_abs (snd (store_apply op s)) = snd (spec_apply op (store_abs s))"
  by (cases op) (simp_all add: store_abs_def store_method_defs map_prod_def split_beta pers.layer_add
    eph.layer_add pers.layer_remove eph.layer_remove persistent_add_all)

lemma handle_after:
  "app_inv st \<Longrightarrow> store_abs (store (snd (handle r st))) = spec_after r (store_abs (store st))"
  by (simp add: handle_store spec_after_def store_abs_apply split: option.split)

lemma handle_answer:
  assumes "app_inv st"
  shows "spec_answer (store_abs (store st)) r (fst (handle r st))"
  using assms persistent_rules_spec [of "store st"] inner_resolve_spec [of "store st"] inner_len_spec [of "store st"]
  by (cases r)
     (auto simp: handler_defs store_method_defs pers.removed eph.removed snapshot_persistent_def
       store_resolve_def store_len_def split: option.split)

lemma handle_events:
  assumes "app_inv st"
  shows "events (snd (handle r st)) = events st @ spec_events r (store_abs (store st))"
  using assms
  by (cases r)
     (auto simp: handler_defs store_method_defs pers.removed eph.removed spec_events_def split: option.split)

lemma handle_token: "token (snd (handle r st)) = (token st \<or> r = Stop)"
  by (cases r) (auto simp: handler_defs split: option.split)

lemma layer_domain:
  assumes "store_inv s"
  shows "persistent s d = Some r \<Longrightarrow> domain r = d" "ephemeral s d = Some r \<Longrightarrow> domain r = d"
  using assms by (simp_all add: store_inv_def persistent_def ephemeral_def layer_of_Some_iff)

lemma map_remove_absent: "m d = None \<Longrightarrow> m(d := None) = m"
  by (simp add: fun_upd_idem_iff)

lemma events_after:
  assumes "app_inv st"
  shows "fold event_apply (spec_events r (store_abs (store st))) (store_abs (store st)) =
    spec_after r (store_abs (store st))"
  using assms layer_domain [of "store st"]
  by (cases r)
     (auto simp: spec_events_def spec_after_def map_remove_absent split: option.split)

lemma handle_all_events:
  "app_inv st \<Longrightarrow> \<exists>es. events (snd (handle_all rs st)) = events st @ es \<and>
     store_abs (store (snd (handle_all rs st))) = fold event_apply es (store_abs (store st))"
proof (induction rs arbitrary: st)
  case (Cons r rs)
  from Cons.IH [OF handle_inv [OF Cons.prems, of r]] obtain es
    where "events (snd (handle_all rs (snd (handle r st)))) = events (snd (handle r st)) @ es"
      "store_abs (store (snd (handle_all rs (snd (handle r st))))) =
         fold event_apply es (store_abs (store (snd (handle r st))))"
    by blast
  with Cons.prems show ?case
    by (intro exI [of _ "spec_events r (store_abs (store st)) @ es"])
       (simp add: Let_def split_beta handle_events handle_after events_after)
qed simp

section \<open>The wire\<close>

record wire =
  request_to_string :: "ipc_request \<Rightarrow> string"
  request_from_str :: "string \<Rightarrow> ipc_request option"
  response_to_string :: "ipc_response \<Rightarrow> string"
  response_from_str :: "string \<Rightarrow> ipc_response option"
  read_lines :: "string \<Rightarrow> string list"

abbreviation newline :: char where
  "newline \<equiv> CHR 0x0A"

text \<open>
  What the third-party code promises: decoding what was encoded gives the message back, a JSON
  text has no line break, and the reader yields the text between line breaks.
\<close>

definition carries_request :: "wire \<Rightarrow> ipc_request \<Rightarrow> bool" where
  "carries_request w r = (request_from_str w (request_to_string w r) = Some r \<and>
     newline \<notin> set (request_to_string w r))"

definition carries_response :: "wire \<Rightarrow> ipc_response \<Rightarrow> bool" where
  "carries_response w x = (response_from_str w (response_to_string w x) = Some x \<and>
     newline \<notin> set (response_to_string w x))"

text \<open>
  A text that ends the input needs no line break, and a message cut short is no message: what
  the reader yields of a proper prefix does not decode.
\<close>

definition survives_cut :: "wire \<Rightarrow> (string \<Rightarrow> 'm option) \<Rightarrow> string \<Rightarrow> bool" where
  "survives_cut w dec msg = (read_lines w msg = [msg] \<and>
     (\<forall>n l ls. n < length msg \<longrightarrow> read_lines w (take n msg) = l # ls \<longrightarrow> dec l = None))"

definition reads_lines :: "wire \<Rightarrow> string list \<Rightarrow> bool" where
  "reads_lines w ls = (read_lines w (concat (map (\<lambda>l. l @ [newline]) ls)) = ls)"

section \<open>Server and client\<close>

text \<open>
  \<^verbatim>\<open>tokio\<close>'s \<^verbatim>\<open>broadcast::Receiver::recv\<close> gives an event, or says that events were
  lost, or that the channel is closed.
\<close>

datatype recv_result = Received dns_event | Lagged nat | Closed

text \<open>
  One turn of the \<^verbatim>\<open>select!\<close> in \<^verbatim>\<open>handle_subscribe\<close>: whether the token is cancelled,
  what the receiver has ready (nothing only together with a cancelled token, otherwise the turn
  has not come yet), and whether the peer still takes the bytes.
\<close>

record sub_turn =
  cancelled :: bool
  ready :: "recv_result option"
  writable :: bool

datatype sub_end = SubOk | SubWriteError | SubWaiting

definition write_response :: "wire \<Rightarrow> ipc_response \<Rightarrow> string" where
  "write_response w x = response_to_string w x @ [newline]"

fun handle_subscribe :: "wire \<Rightarrow> sub_turn list \<Rightarrow> string \<times> sub_end" where
  "handle_subscribe w [] = ([], SubWaiting)"
| "handle_subscribe w (t # ts) =
     (if cancelled t then ([], SubOk)
      else case ready t of
        None \<Rightarrow> handle_subscribe w ts
      | Some (Received e) \<Rightarrow>
          if writable t then map_prod ((@) (write_response w (Event e))) id (handle_subscribe w ts)
          else ([], SubWriteError)
      | Some (Lagged n) \<Rightarrow> handle_subscribe w ts
      | Some Closed \<Rightarrow> ([], SubOk))"

datatype ipc_error = ConnectFailed | InvalidJson | ConnectionClosed | WriteFailed | ReadFailed

text \<open>
  What can go wrong with a connection, seen from one of its ends: a write fails after some of
  its bytes have gone out, or a read fails after some lines have come in.
\<close>

record conn_io =
  write_cut :: "nat option"
  read_limit :: "nat option"

definition io_fine :: conn_io where
  "io_fine = \<lparr>write_cut = None, read_limit = None\<rparr>"

definition cut :: "nat option \<Rightarrow> 'a list \<Rightarrow> 'a list" where
  "cut c xs = (case c of None \<Rightarrow> xs | Some n \<Rightarrow> take n xs)"

text \<open>
  One connection, for any implementation of the trait \<^verbatim>\<open>IpcHandler\<close>: the first line is the
  request. The result is the outcome of the task (its error is only logged), the bytes written
  and the new state. Failing writes to a subscriber are part of its turns.
\<close>

type_synonym 's handler = "ipc_request \<Rightarrow> 's \<Rightarrow> ipc_response \<times> 's"

definition handle_connection ::
    "wire \<Rightarrow> 's handler \<Rightarrow> conn_io \<Rightarrow> sub_turn list \<Rightarrow> string \<Rightarrow> 's \<Rightarrow> (ipc_error + unit) \<times> string \<times> 's" where
  "handle_connection w h io turns inp s =
     (if read_limit io = Some 0 then (Inl ReadFailed, [], s)
      else case read_lines w inp of
        [] \<Rightarrow> (Inr (), [], s)
      | line # _ \<Rightarrow>
          (case request_from_str w line of
             None \<Rightarrow> (Inl InvalidJson, [], s)
           | Some req \<Rightarrow>
               if req = Subscribe
               then (let (out, e) = handle_subscribe w turns
                     in (if e = SubWriteError then Inl WriteFailed else Inr (), out, s))
               else (let (resp, s') = h req s
                     in (if write_cut io = None then Inr () else Inl WriteFailed,
                         cut (write_cut io) (write_response w resp), s'))))"

text \<open>
  The client's side of one exchange: what it writes, and what it makes of the bytes that come
  back until the server closes the connection.
\<close>

definition client_payload :: "wire \<Rightarrow> ipc_request \<Rightarrow> string" where
  "client_payload w req = request_to_string w req @ [newline]"

definition client_response :: "wire \<Rightarrow> string \<Rightarrow> ipc_error + ipc_response" where
  "client_response w bytes =
     (case read_lines w bytes of
        [] \<Rightarrow> Inl ConnectionClosed
      | line # _ \<Rightarrow> (case response_from_str w line of None \<Rightarrow> Inl InvalidJson | Some x \<Rightarrow> Inr x))"

text \<open>
  \<^verbatim>\<open>IpcClient::send\<close>. The peer is what listens on the socket: nothing, or a server that
  turns the bytes it reads into the bytes it writes and a new state. If the client's write fails,
  the server has read only what went out.
\<close>

definition send ::
    "wire \<Rightarrow> conn_io \<Rightarrow> (string \<Rightarrow> 's \<Rightarrow> string \<times> 's) option \<Rightarrow> ipc_request \<Rightarrow> 's \<Rightarrow> (ipc_error + ipc_response) \<times> 's" where
  "send w io peer req s =
     (case peer of
        None \<Rightarrow> (Inl ConnectFailed, s)
      | Some srv \<Rightarrow>
          (let (out, s') = srv (cut (write_cut io) (client_payload w req)) s
           in (if write_cut io \<noteq> None then Inl WriteFailed
               else if read_limit io = Some 0 then Inl ReadFailed
               else client_response w out, s')))"

definition is_running :: "(string \<Rightarrow> 's \<Rightarrow> string \<times> 's) option \<Rightarrow> bool" where
  "is_running peer = (peer \<noteq> None)"

text \<open>A server as a peer: the outcome of the connection's task is only logged.\<close>

definition server_peer :: "wire \<Rightarrow> 's handler \<Rightarrow> conn_io \<Rightarrow> string \<Rightarrow> 's \<Rightarrow> string \<times> 's" where
  "server_peer w h io bytes s = snd (handle_connection w h io [] bytes s)"

text \<open>
  The background task of \<^verbatim>\<open>IpcClient::subscribe\<close>: lines that are no response are skipped,
  responses that are no event are ignored, and the task ends when the receiver of the channel
  is dropped, here after it has taken \<open>n\<close> events.
\<close>

fun subscribe_task :: "wire \<Rightarrow> nat \<Rightarrow> string list \<Rightarrow> dns_event list" where
  "subscribe_task w n [] = []"
| "subscribe_task w n (line # ls) =
     (case response_from_str w line of
        Some (Event e) \<Rightarrow> (case n of 0 \<Rightarrow> [] | Suc n' \<Rightarrow> e # subscribe_task w n' ls)
      | _ \<Rightarrow> subscribe_task w n ls)"

text \<open>
  \<^verbatim>\<open>IpcClient::subscribe\<close>: connecting and writing may fail; then the task hands the events on
  until the connection ends, a read fails or the receiver is dropped.
\<close>

definition subscribe ::
    "wire \<Rightarrow> conn_io \<Rightarrow> (string \<Rightarrow> 's \<Rightarrow> string \<times> 's) option \<Rightarrow> nat \<Rightarrow> 's \<Rightarrow> (ipc_error + dns_event list) \<times> 's" where
  "subscribe w io peer n s =
     (case peer of
        None \<Rightarrow> (Inl ConnectFailed, s)
      | Some srv \<Rightarrow>
          (let (out, s') = srv (cut (write_cut io) (client_payload w Subscribe)) s
           in (if write_cut io \<noteq> None then Inl WriteFailed
               else Inr (subscribe_task w n (cut (read_limit io) (read_lines w out))), s')))"

section \<open>Listening\<close>

text \<open>
  The accept loop. A turn of its biased \<^verbatim>\<open>select!\<close> sees whether the token is cancelled and
  what \<^verbatim>\<open>accept\<close> gave; an accepted connection is handed to a task of its own, an accept
  error ends the loop.
\<close>

record 'c accept_turn =
  stop_requested :: bool
  accepted :: "(string + 'c) option"

datatype serve_end = Stopped | ServeError string | Serving

fun accept_loop :: "'c accept_turn list \<Rightarrow> 'c list \<times> serve_end" where
  "accept_loop [] = ([], Serving)"
| "accept_loop (t # ts) =
     (if stop_requested t then ([], Stopped)
      else case accepted t of
        None \<Rightarrow> accept_loop ts
      | Some (Inl e) \<Rightarrow> ([], ServeError e)
      | Some (Inr c) \<Rightarrow> map_prod ((#) c) id (accept_loop ts))"

text \<open>
  The socket file of \<^verbatim>\<open>serve\<close>: present with a mode, or absent. A stale file is removed, the
  platform adjusts the mode, the listener creates the file (with the mode the listener was
  given, or else the default of the process), and dropping the server removes it. Removing and
  binding can fail; on Windows the pipe is no file and its security descriptor lets every
  authenticated user in.
\<close>

type_synonym mode = nat

definition mode_666 :: mode where
  "mode_666 = 438"

definition set_mode :: "mode \<Rightarrow> mode option \<Rightarrow> mode option" where
  "set_mode m f = (case f of None \<Rightarrow> None | Some _ \<Rightarrow> Some m)"

definition serve_setup ::
    "platform \<Rightarrow> string option \<Rightarrow> string option \<Rightarrow> mode \<Rightarrow> mode option \<Rightarrow> string option \<times> mode option" where
  "serve_setup p remove_error bind_error umask_mode f =
     (case (if p \<noteq> Windows \<and> f \<noteq> None then remove_error else None) of
        Some e \<Rightarrow> (Some e, f)
      | None \<Rightarrow>
          (let f1 = (if p = Windows then f else None);
               f2 = (if p = MacOs then set_mode mode_666 f1 else f1)
           in case bind_error of
                Some e \<Rightarrow> (Some e, f2)
              | None \<Rightarrow>
                  (None, if p = Windows then f2 else Some (if p = Linux then mode_666 else umask_mode))))"

definition drop_server :: "platform \<Rightarrow> bool \<Rightarrow> mode option \<Rightarrow> mode option" where
  "drop_server p removable f = (if p \<noteq> Windows \<and> f \<noteq> None \<and> removable then None else f)"

definition serve ::
    "platform \<Rightarrow> string option \<Rightarrow> string option \<Rightarrow> mode \<Rightarrow> 'c accept_turn list \<Rightarrow> mode option \<Rightarrow>
     'c list \<times> serve_end \<times> mode option" where
  "serve p remove_error bind_error umask_mode turns f =
     (case serve_setup p remove_error bind_error umask_mode f of
        (Some e, f') \<Rightarrow> ([], ServeError e, f')
      | (None, f') \<Rightarrow> (let (conns, e) = accept_loop turns in (conns, e, f')))"

section \<open>Handlers in parallel\<close>

text \<open>
  Each connection runs in its own task, and a handler writes the store before it sends its
  event. Between the two, another task may do either.
\<close>

datatype task = Arrived ipc_request | Wrote ipc_request "dns_event list" | Finished

definition task_events :: "ipc_request \<Rightarrow> app_state \<Rightarrow> dns_event list" where
  "task_events r st = drop (length (events st)) (events (snd (handle r st)))"

record ipc_state =
  app :: app_state
  tasks :: "task list"

inductive ipc_step :: "ipc_state \<Rightarrow> ipc_state \<Rightarrow> bool" where
  store_write: "i < length (tasks s) \<Longrightarrow> tasks s ! i = Arrived r \<Longrightarrow>
     ipc_step s (s\<lparr>app := (app s)\<lparr>store := store (snd (handle r (app s)))\<rparr>,
       tasks := (tasks s)[i := Wrote r (task_events r (app s))]\<rparr>)"
| send_event: "i < length (tasks s) \<Longrightarrow> tasks s ! i = Wrote r es \<Longrightarrow>
     ipc_step s (s\<lparr>app := (app s)\<lparr>events := events (app s) @ es, token := (token (app s) \<or> r = Stop)\<rparr>,
       tasks := (tasks s)[i := Finished]\<rparr>)"

lemma ipc_step_inv: "ipc_step s t \<Longrightarrow> app_inv (app s) \<Longrightarrow> app_inv (app t)"
proof (induction rule: ipc_step.induct)
  case (store_write i s r)
  from handle_inv [OF store_write.prems, of r] show ?case by (simp add: app_inv_def)
qed (simp add: app_inv_def)

lemma ipc_steps_inv: "ipc_step\<^sup>*\<^sup>* s t \<Longrightarrow> app_inv (app s) \<Longrightarrow> app_inv (app t)"
  by (induction rule: rtranclp_induct) (auto intro: ipc_step_inv)

section \<open>Facts about one exchange\<close>

lemma io_simps: "write_cut io_fine = None" "read_limit io_fine = None" "cut None xs = xs" "cut (Some n) xs = take n xs"
  by (simp_all add: io_fine_def cut_def)

lemma read_one:
  "reads_lines w [l] \<Longrightarrow> read_lines w (l @ [newline]) = [l]"
  by (simp add: reads_lines_def)

lemma cut_line:
  assumes "survives_cut w dec msg" "reads_lines w [msg]" "read_lines w (cut c (msg @ [newline])) = l # ls"
  shows "l = msg \<or> dec l = None"
proof -
  have full: "read_lines w (msg @ [newline]) = [msg]" using assms(2) by (rule read_one)
  show ?thesis
  proof (cases c)
    case None
    with assms(3) full show ?thesis by (simp add: io_simps)
  next
    case (Some n)
    consider "n < length msg" | "n = length msg" | "n > length msg" by linarith
    then show ?thesis
    proof cases
      case 1
      with Some assms(1,3) show ?thesis by (auto simp: survives_cut_def io_simps)
    qed (use Some assms(1,3) full in \<open>simp_all add: survives_cut_def io_simps\<close>)
  qed
qed

lemma client_reads:
  assumes "carries_response w x" "reads_lines w [response_to_string w x]"
  shows "client_response w (write_response w x) = Inr x"
  using assms by (simp add: client_response_def write_response_def read_one carries_response_def)

text \<open>
  The trait \<^verbatim>\<open>IpcHandler\<close> as the server uses it: a handler that keeps an invariant of the
  state. What a client sees then depends on the handler alone.
\<close>

locale ipc_handler =
  fixes h :: "ipc_request \<Rightarrow> 's \<Rightarrow> ipc_response \<times> 's" and inv :: "'s \<Rightarrow> bool"
  assumes handler_inv: "inv s \<Longrightarrow> inv (snd (h r s))"
begin

lemma connection_inv: "inv s \<Longrightarrow> inv (snd (snd (handle_connection w h io ts bytes s)))"
  by (simp add: handle_connection_def Let_def split_beta handler_inv split: list.split option.split)

lemma exchange:
  assumes "carries_request w req" "reads_lines w [request_to_string w req]" "req \<noteq> Subscribe"
    and "carries_response w (fst (h req s))" "reads_lines w [response_to_string w (fst (h req s))]"
  shows "send w io_fine (Some (server_peer w h io_fine)) req s = (Inr (fst (h req s)), snd (h req s))"
proof -
  have "handle_connection w h io_fine [] (client_payload w req) s =
      (Inr (), write_response w (fst (h req s)), snd (h req s))"
    using assms(1-3)
    by (simp add: handle_connection_def client_payload_def read_one carries_request_def split_beta io_simps)
  with client_reads [OF assms(4,5)] show ?thesis by (simp add: send_def server_peer_def io_simps)
qed

text \<open>With failures on either side: what the server has done, and what the client may believe.\<close>

lemma server_at_most_once:
  assumes "carries_request w req" "reads_lines w [request_to_string w req]" "req \<noteq> Subscribe"
    and "survives_cut w (request_from_str w) (request_to_string w req)"
  shows "server_peer w h io (cut c (client_payload w req)) s \<in>
    {([], s), (cut (write_cut io) (write_response w (fst (h req s))), snd (h req s))}"
proof (cases "read_lines w (cut c (client_payload w req))")
  case (Cons l ls)
  then have "l = request_to_string w req \<or> request_from_str w l = None"
    unfolding client_payload_def by (rule cut_line [OF assms(4,2)])
  with assms(1,3) Cons show ?thesis
    by (auto simp: server_peer_def handle_connection_def carries_request_def split_beta Let_def)
qed (simp add: server_peer_def handle_connection_def)

lemma at_most_once:
  assumes "carries_request w req" "reads_lines w [request_to_string w req]" "req \<noteq> Subscribe"
    and "survives_cut w (request_from_str w) (request_to_string w req)"
    and "carries_response w (fst (h req s))" "reads_lines w [response_to_string w (fst (h req s))]"
    and "survives_cut w (response_from_str w) (response_to_string w (fst (h req s)))" "read_lines w [] = []"
    and "(got, s') = send w cio (Some (server_peer w h sio)) req s"
  shows "(s' = s \<or> s' = snd (h req s)) \<and> (\<forall>x. got = Inr x \<longrightarrow> x = fst (h req s) \<and> s' = snd (h req s))"
proof -
  let ?out = "server_peer w h sio (cut (write_cut cio) (client_payload w req)) s"
  from server_at_most_once [OF assms(1-4)] consider
      (none) "?out = ([], s)"
    | (handled) "?out = (cut (write_cut sio) (write_response w (fst (h req s))), snd (h req s))" by blast
  then show ?thesis
  proof cases
    case none
    with assms(8,9) show ?thesis by (auto simp: send_def client_response_def split: if_splits)
  next
    case handled
    have "x = fst (h req s)" if "client_response w (cut c (write_response w (fst (h req s)))) = Inr x" for c x
      using that cut_line [OF assms(7,6)] assms(5)
      by (fastforce simp: client_response_def write_response_def carries_response_def split: list.splits option.splits)
    with handled assms(9) show ?thesis by (auto simp: send_def split: if_splits)
  qed
qed

lemma malformed:
  assumes "\<forall>l ls. read_lines w bytes = l # ls \<longrightarrow> request_from_str w l = None" "read_lines w [] = []"
  shows "client_response w (fst (server_peer w h io_fine bytes s)) = Inl ConnectionClosed \<and>
    snd (server_peer w h io_fine bytes s) = s"
  using assms by (cases "read_lines w bytes")
    (simp_all add: server_peer_def handle_connection_def client_response_def io_simps)

end

interpretation app: ipc_handler handle app_inv
  by unfold_locales (rule handle_inv)

text \<open>The events a subscriber is sent: those received before the token or the channel ends the loop.\<close>

fun sent_events :: "sub_turn list \<Rightarrow> dns_event list" where
  "sent_events [] = []"
| "sent_events (t # ts) =
     (if cancelled t \<or> ready t = Some Closed then []
      else case ready t of
        Some (Received e) \<Rightarrow> if writable t then e # sent_events ts else []
      | _ \<Rightarrow> sent_events ts)"

lemma handle_subscribe_bytes:
  "fst (handle_subscribe w ts) = concat (map (\<lambda>e. write_response w (Event e)) (sent_events ts))"
  by (induction w ts rule: handle_subscribe.induct) (auto split: option.splits recv_result.splits)

lemma subscribe_task_events:
  "\<forall>e\<in>set es. response_from_str w (enc e) = Some (Event e) \<Longrightarrow>
   subscribe_task w n (map enc es) = take n es"
  by (induction es arbitrary: n) (auto split: nat.split)

section \<open>A concrete wire\<close>

text \<open>
  An instance that satisfies the promises: a message is written as its position, in unary and
  with a final dot, in a given list of messages, and a line ends at the next line break.
\<close>

definition sample_enc :: "'a list \<Rightarrow> 'a \<Rightarrow> string" where
  "sample_enc xs x = replicate (length (takeWhile (\<lambda>y. y \<noteq> x) xs)) (CHR ''0'') @ [CHR ''.'']"

definition sample_dec :: "'a list \<Rightarrow> string \<Rightarrow> 'a option" where
  "sample_dec xs s =
     (if s \<noteq> [] \<and> last s = CHR ''.'' \<and> length s \<le> length xs then Some (xs ! (length s - 1)) else None)"

fun split_lines :: "string \<Rightarrow> string list" where
  "split_lines [] = []"
| "split_lines (c # cs) =
     (if c = newline then [] # split_lines cs
      else case split_lines cs of [] \<Rightarrow> [[c]] | l # ls \<Rightarrow> (c # l) # ls)"

definition sample_wire :: "ipc_request list \<Rightarrow> ipc_response list \<Rightarrow> wire" where
  "sample_wire qs xs = \<lparr>request_to_string = sample_enc qs, request_from_str = sample_dec qs,
     response_to_string = sample_enc xs, response_from_str = sample_dec xs, read_lines = split_lines\<rparr>"

lemma sample_round: "x \<in> set xs \<Longrightarrow> sample_dec xs (sample_enc xs x) = Some x"
  by (induction xs) (auto simp: sample_dec_def sample_enc_def split: if_splits)

lemma sample_wire_carries:
  "r \<in> set qs \<Longrightarrow> carries_request (sample_wire qs xs) r"
  "x \<in> set xs \<Longrightarrow> carries_response (sample_wire qs xs) x"
  by (auto simp: carries_request_def carries_response_def sample_wire_def sample_round)
     (simp_all add: sample_enc_def)

lemma split_lines_plain: "newline \<notin> set l \<Longrightarrow> split_lines l = (if l = [] then [] else [l])"
  by (induction l) auto

lemma sample_survives: "survives_cut (sample_wire qs xs) (sample_dec ys) (sample_enc zs z)"
proof -
  have "sample_dec ys l = None" if "n < length (sample_enc zs z)" "split_lines (take n (sample_enc zs z)) = l # ls" for n l ls
  proof -
    have "take n (sample_enc zs z) = replicate n (CHR ''0'')" using that(1) by (simp add: sample_enc_def)
    with that(2) have "l = replicate n (CHR ''0'')" by (simp add: split_lines_plain split: if_splits)
    then show ?thesis by (cases n) (simp_all add: sample_dec_def)
  qed
  moreover have "split_lines (sample_enc zs z) = [sample_enc zs z]"
    by (subst split_lines_plain) (simp_all add: sample_enc_def)
  ultimately show ?thesis by (simp add: survives_cut_def sample_wire_def)
qed

lemma split_lines_line:
  "newline \<notin> set l \<Longrightarrow> split_lines (l @ newline # s) = l # split_lines s"
  by (induction l) auto

lemma sample_wire_lines: "\<forall>l\<in>set ls. newline \<notin> set l \<Longrightarrow> reads_lines (sample_wire qs xs) ls"
  by (induction ls) (auto simp: reads_lines_def sample_wire_def split_lines_line)

section \<open>Properties\<close>





text \<open>
  With parallel handlers the order of events is not the order of the writes: two clients
  that set the same domain can leave the second rule in the store while the last event names
  the first, so an observer who saw every event is wrong about the rule in force.
\<close>

theorem parallel_events_reordered:
  defines "a \<equiv> local_rule ''a.io'' 1 False" and "b \<equiv> local_rule ''a.io'' 2 False"
  shows "\<exists>t. ipc_step\<^sup>*\<^sup>* \<lparr>app = app_state_new False,
        tasks = [Arrived (Add ''a.io'' (target a) False), Arrived (Add ''a.io'' (target b) False)]\<rparr> t \<and>
      tasks t = [Finished, Finished] \<and> events (app t) = [RuleAdded b, RuleAdded a] \<and>
      inner_resolve (store (app t)) ''a.io'' = Some b \<and>
      spec_persistent (fold event_apply (events (app t)) (store_abs inner_new)) ''a.io'' = Some a"
proof -
  have v: "validate_domain ''a.io''" by (subst validate_domain_eq_ok, simp, code_simp)
  have l: "to_lowercase ''a.io'' = ''a.io''" by code_simp
  let ?ra = "Add ''a.io'' (target a) False" and ?rb = "Add ''a.io'' (target b) False"
  let ?s1 = "inner_add a inner_new"
  let ?s2 = "inner_add b ?s1"
  let ?st = "\<lambda>s es. \<lparr>store = s, events = es, token = False\<rparr>"
  have ha: "handle ?ra (?st s es) = (Ok, ?st (inner_add a s) (es @ [RuleAdded a]))" for s es
    using v l by (simp add: handler_defs store_method_defs a_def)
  have hb: "handle ?rb (?st s es) = (Ok, ?st (inner_add b s) (es @ [RuleAdded b]))" for s es
    using v l by (simp add: handler_defs store_method_defs b_def)
  note ev = task_events_def ha hb
  let ?t0 = "\<lparr>app = ?st inner_new [], tasks = [Arrived ?ra, Arrived ?rb]\<rparr>"
  let ?t1 = "\<lparr>app = ?st ?s1 [], tasks = [Wrote ?ra [RuleAdded a], Arrived ?rb]\<rparr>"
  let ?t2 = "\<lparr>app = ?st ?s2 [], tasks = [Wrote ?ra [RuleAdded a], Wrote ?rb [RuleAdded b]]\<rparr>"
  let ?t3 = "\<lparr>app = ?st ?s2 [RuleAdded b], tasks = [Wrote ?ra [RuleAdded a], Finished]\<rparr>"
  let ?t4 = "\<lparr>app = ?st ?s2 [RuleAdded b, RuleAdded a], tasks = [Finished, Finished]\<rparr>"
  have "ipc_step ?t0 ?t1" using ipc_step.store_write [of 0 ?t0 ?ra] by (simp add: ev del: handle.simps)
  moreover have "ipc_step ?t1 ?t2" using ipc_step.store_write [of 1 ?t1 ?rb] by (simp add: ev del: handle.simps)
  moreover have "ipc_step ?t2 ?t3" using ipc_step.send_event [of 1 ?t2 ?rb] by simp
  moreover have "ipc_step ?t3 ?t4" using ipc_step.send_event [of 0 ?t3 ?ra] by simp
  ultimately have "ipc_step\<^sup>*\<^sup>* ?t0 ?t4"
    by (meson rtranclp.rtrancl_refl rtranclp.rtrancl_into_rtrancl)
  moreover have "inner_resolve ?s2 ''a.io'' = Some b" unfolding a_def b_def by code_simp
  ultimately show ?thesis
    by (intro exI [of _ ?t4]) (simp add: app_state_new_def a_def b_def)
qed

text \<open>
  C23. One exchange, end to end: if the codec carries the request and the handler's answer, the
  client gets exactly the handler's answer and the daemon is left in the handler's state, with
  the invariant kept. So an Add that the client sees accepted is in the persistent map, under
  the lower-case name.
\<close>

theorem exchange_correct:
  assumes "app_inv st" "req \<noteq> Subscribe"
    and "carries_request w req" "reads_lines w [request_to_string w req]"
    and "carries_response w (fst (handle req st))" "reads_lines w [response_to_string w (fst (handle req st))]"
  shows "send w io_fine (Some (server_peer w handle io_fine)) req st = (Inr (fst (handle req st)), snd (handle req st)) \<and>
    app_inv (snd (send w io_fine (Some (server_peer w handle io_fine)) req st)) \<and>
    (\<forall>d t b. req = Add d t b \<and> fst (send w io_fine (Some (server_peer w handle io_fine)) req st) = Inr Ok \<longrightarrow>
       persistent (store (snd (send w io_fine (Some (server_peer w handle io_fine)) req st))) (to_lowercase d) =
         Some (dns_rule_new (to_lowercase d) t b))"
proof -
  have ex: "send w io_fine (Some (server_peer w handle io_fine)) req st = (Inr (fst (handle req st)), snd (handle req st))"
    using app.exchange assms by blast
  moreover have "app_inv (snd (handle req st))" using assms(1) by (rule handle_inv)
  moreover have "persistent (store (snd (handle req st))) (to_lowercase d) = Some (dns_rule_new (to_lowercase d) t b)"
    if "req = Add d t b" "fst (handle req st) = Ok" for d t b
    using that assms(1)
    by (auto simp: handler_defs store_method_defs pers.layer_add split: if_splits)
  ultimately show ?thesis unfolding ex fst_conv snd_conv by blast
qed

theorem exchange_correct_witness:
  "\<exists>w. send w io_fine (Some (server_peer w handle io_fine)) (Add ''a.io'' (SocketAddrV4 ipv4_localhost 1) False) (app_state_new False) =
      (Inr Ok, snd (handle (Add ''a.io'' (SocketAddrV4 ipv4_localhost 1) False) (app_state_new False)))"
proof -
  let ?req = "Add ''a.io'' (SocketAddrV4 ipv4_localhost 1) False"
  let ?w = "sample_wire [?req] [Ok]"
  have v: "validate_domain ''a.io''" by (subst validate_domain_eq_ok, simp, code_simp)
  then have ok: "fst (handle ?req (app_state_new False)) = Ok" by (simp add: handler_defs)
  have "carries_request ?w ?req" "carries_response ?w Ok" by (simp_all add: sample_wire_carries)
  moreover have "reads_lines ?w [request_to_string ?w ?req]" "reads_lines ?w [response_to_string ?w Ok]"
    by (rule sample_wire_lines; simp add: sample_wire_def sample_enc_def)+
  ultimately show ?thesis
    using exchange_correct [OF app_inv_new, of ?req ?w False] ok by (intro exI [of _ ?w]) simp
qed

text \<open>
  C24. A request is handled at most once. Whatever fails on either side of the connection (a write
  after any number of bytes, a read), the daemon is left as before or as the handler leaves it,
  with the invariant kept; and if the client gets an answer at all, it is the handler's answer
  and the request has been handled. The codec is only taken to reject messages cut short.
\<close>

theorem exchange_at_most_once:
  assumes "app_inv st" "req \<noteq> Subscribe" "read_lines w [] = []"
    and "carries_request w req" "reads_lines w [request_to_string w req]"
    and "survives_cut w (request_from_str w) (request_to_string w req)"
    and "carries_response w (fst (handle req st))" "reads_lines w [response_to_string w (fst (handle req st))]"
    and "survives_cut w (response_from_str w) (response_to_string w (fst (handle req st)))"
    and "(got, st') = send w cio (Some (server_peer w handle sio)) req st"
  shows "app_inv st' \<and> (st' = st \<or> st' = snd (handle req st)) \<and>
    (\<forall>x. got = Inr x \<longrightarrow> x = fst (handle req st) \<and> st' = snd (handle req st))"
  using app.at_most_once [OF assms(4,5,2,6-9,3,10)] assms(1) handle_inv [OF assms(1), of req] by auto

text \<open>
  A server that can send only one byte of its answer: the rule is there, and the client is told
  that the answer is no answer.
\<close>

theorem exchange_at_most_once_witness:
  "\<exists>w st'. send w io_fine (Some (server_peer w handle \<lparr>write_cut = Some 1, read_limit = None\<rparr>))
      (Add ''a.io'' (SocketAddrV4 ipv4_localhost 1) False) (app_state_new False) = (Inl InvalidJson, st') \<and>
    st' = snd (handle (Add ''a.io'' (SocketAddrV4 ipv4_localhost 1) False) (app_state_new False))"
proof -
  let ?req = "Add ''a.io'' (SocketAddrV4 ipv4_localhost 1) False" and ?st = "app_state_new False"
  let ?w = "sample_wire [?req] [Error [], Ok]" and ?io = "\<lparr>write_cut = Some 1, read_limit = None\<rparr>"
  have v: "validate_domain ''a.io''" by (subst validate_domain_eq_ok, simp, code_simp)
  then have ok: "fst (handle ?req ?st) = Ok" by (simp add: handler_defs)
  have c: "carries_request ?w ?req" "carries_response ?w Ok" by (simp_all add: sample_wire_carries)
  have l: "reads_lines ?w [request_to_string ?w ?req]" "reads_lines ?w [response_to_string ?w Ok]"
    by (rule sample_wire_lines; simp add: sample_wire_def sample_enc_def)+
  have cut: "survives_cut ?w (request_from_str ?w) (request_to_string ?w ?req)"
    "survives_cut ?w (response_from_str ?w) (response_to_string ?w Ok)"
    using sample_survives by (simp_all add: sample_wire_def)
  obtain got st' where g: "(got, st') = send ?w io_fine (Some (server_peer ?w handle ?io)) ?req ?st" by (metis surj_pair)
  have r: "read_lines ?w (client_payload ?w ?req) = [request_to_string ?w ?req]"
    using read_one [OF l(1)] by (simp add: client_payload_def)
  have "write_response ?w Ok = ''0.'' @ [newline]" by (simp add: write_response_def sample_wire_def sample_enc_def)
  then have srv: "server_peer ?w handle ?io (client_payload ?w ?req) ?st = (''0'', snd (handle ?req ?st))"
    using r c(1) ok by (simp add: server_peer_def handle_connection_def io_simps carries_request_def split_beta Let_def del: handle.simps)
  have "client_response ?w ''0'' = Inl InvalidJson" by (simp add: client_response_def sample_wire_def sample_dec_def)
  with g srv have got: "got = Inl InvalidJson" "st' = snd (handle ?req ?st)"
    by (simp_all add: send_def io_simps del: handle.simps)
  have "st' = ?st \<or> st' = snd (handle ?req ?st)"
    using exchange_at_most_once [OF app_inv_new _ _ c(1) l(1) cut(1) _ _ _ g] ok c(2) l(2) cut(2)
    by (simp add: sample_wire_def del: handle.simps)
  with got g show ?thesis by (intro exI [of _ ?w] exI [of _ st']) (simp del: handle.simps)
qed

text \<open>
  A line that is no request changes nothing and closes the connection: the client sees the
  connection closed, whatever the state.
\<close>

theorem malformed_request:
  assumes "read_lines w bytes = l # ls" "request_from_str w l = None" "read_lines w [] = []"
  shows "handle_connection w handle io_fine ts bytes st = (Inl InvalidJson, [], st) \<and>
    client_response w (fst (server_peer w handle io_fine bytes st)) = Inl ConnectionClosed"
  using assms app.malformed [of w bytes] by (simp add: handle_connection_def io_simps)

theorem malformed_request_witness:
  "\<exists>w. handle_connection w handle io_fine [] ''{}'' (app_state_new False) = (Inl InvalidJson, [], app_state_new False)"
  using malformed_request [of "sample_wire [] []" "''{}''" "''{}''" "[]" "[]" "app_state_new False"]
  by (intro exI [of _ "sample_wire [] []"]) (simp add: sample_wire_def sample_dec_def)

text \<open>
  A subscriber gets, in order, exactly the events its receiver yielded before the token was
  cancelled, the channel closed or a write failed; events it lagged behind are skipped. The
  client's task hands the first of them on, until its own receiver is dropped.
\<close>

theorem subscription_delivers:
  assumes "\<forall>e\<in>set (sent_events ts). carries_response w (Event e)"
    and "reads_lines w (map (\<lambda>e. response_to_string w (Event e)) (sent_events ts))"
    and "carries_request w Subscribe" "reads_lines w [request_to_string w Subscribe]"
  shows "subscribe_task w n (read_lines w (fst (snd (handle_connection w handle io_fine ts (client_payload w Subscribe) st)))) =
    take n (sent_events ts)"
proof -
  have "fst (snd (handle_connection w handle io_fine ts (client_payload w Subscribe) st)) = fst (handle_subscribe w ts)"
    using assms(3,4)
    by (simp add: handle_connection_def client_payload_def read_one carries_request_def split_beta Let_def io_simps)
  also have "\<dots> = concat (map (\<lambda>l. l @ [newline]) (map (\<lambda>e. response_to_string w (Event e)) (sent_events ts)))"
    by (simp add: handle_subscribe_bytes write_response_def comp_def)
  finally show ?thesis
    using assms(1,2) subscribe_task_events [of "sent_events ts" w "\<lambda>e. response_to_string w (Event e)" n]
    by (simp add: reads_lines_def carries_response_def)
qed

theorem subscription_delivers_witness:
  "let ts = [\<lparr>cancelled = False, ready = Some (Received (RuleAdded (local_rule ''a.io'' 1 False))), writable = True\<rparr>,
       \<lparr>cancelled = False, ready = Some (Lagged 3), writable = True\<rparr>,
       \<lparr>cancelled = False, ready = Some (Received DaemonStopped), writable = True\<rparr>];
     w = sample_wire [Subscribe] [Event (RuleAdded (local_rule ''a.io'' 1 False)), Event DaemonStopped]
   in subscribe_task w 9 (read_lines w (fst (snd (handle_connection w handle io_fine ts (client_payload w Subscribe) (app_state_new False))))) =
     [RuleAdded (local_rule ''a.io'' 1 False), DaemonStopped]"
proof -
  let ?e = "RuleAdded (local_rule ''a.io'' 1 False)"
  let ?ts = "[\<lparr>cancelled = False, ready = Some (Received ?e), writable = True\<rparr>,
       \<lparr>cancelled = False, ready = Some (Lagged 3), writable = True\<rparr>,
       \<lparr>cancelled = False, ready = Some (Received DaemonStopped), writable = True\<rparr>]"
  let ?w = "sample_wire [Subscribe] [Event ?e, Event DaemonStopped]"
  have "reads_lines ?w [request_to_string ?w Subscribe]"
    "reads_lines ?w (map (\<lambda>e. response_to_string ?w (Event e)) (sent_events ?ts))"
    by (rule sample_wire_lines; simp add: sample_wire_def sample_enc_def)+
  with subscription_delivers [of ?ts ?w 9 "app_state_new False"] show ?thesis
    by (simp add: sample_wire_carries)
qed

text \<open>
  The stop notice can be lost. Stop sends the event and cancels the token; a subscriber task
  whose next turn sees the token cancelled ends without sending the event that is ready.
\<close>

theorem stop_notice_dropped:
  "events (snd (handle Stop st)) = events st @ [DaemonStopped] \<and> token (snd (handle Stop st)) \<and>
   handle_subscribe w (\<lparr>cancelled = True, ready = Some (Received DaemonStopped), writable = True\<rparr> # ts) = ([], SubOk)"
  by (simp add: emit_def)

text \<open>
  C26. Restart. If the configuration file takes what \<^verbatim>\<open>save\<close> writes, a daemon that loads it
  into a fresh state has exactly the persistent rules of the one that saved, none of its
  ephemeral ones, and keeps the invariant.
\<close>

theorem save_load:
  assumes "app_inv st" "confy_ok sto lod \<lparr>rules = snapshot_permanent st\<rparr> d"
    and "st' = snd (load_rules lod (save sto st d) (app_state_new tok))"
  shows "persistent (store st') = persistent (store st) \<and> ephemeral (store st') = Map.empty \<and> app_inv st' \<and>
    (\<forall>n. no_match (ephemeral (store st)) n \<longrightarrow> inner_resolve (store st') n = inner_resolve (store st) n)"
proof -
  let ?s = "store st"
  let ?rs = "map snd (persistent_exact ?s) @ persistent_wildcard ?s"
  have inv: "store_inv ?s" using assms(1) by simp
  have st': "st' = (app_state_new tok)\<lparr>store := inner_add_all ?rs inner_new\<rparr>"
    using assms(2,3)
    by (simp add: load_rules_def save_def confy_ok_def app_state_new_def store_add_all_def Let_def
      snapshot_permanent_def snapshot_persistent_def persistent_rules_def)
  obtain t where t: "inner_add_all ?rs inner_new =
      inner_new\<lparr>persistent_exact := t, persistent_wildcard := persistent_wildcard ?s\<rparr>"
      "map_of t = map_of (persistent_exact ?s)"
    using reload_state [OF inv refl] by blast
  have "\<forall>r\<in>set (op_rules (OpAddAll ?rs)). name_valid r"
    using assms(1) by (simp add: app_inv_def set_all_rules ball_Un)
  from app_inv_apply [OF app_inv_new this, of tok] have "app_inv st'"
    by (simp add: st' app_state_new_def store_add_all_def del: set_append)
  moreover have "inner_resolve (store st') n = inner_resolve ?s n" if "no_match (ephemeral ?s) n" for n
    using resolve_ephemeral_free [OF inv that] t by (simp add: st' inner_resolve_def inner_new_def
      find_wildcard_def cong: option.case_cong)
  ultimately show ?thesis
    using t by (simp add: st' persistent_def ephemeral_def layer_of_def fun_eq_iff inner_new_def
      cong: option.case_cong)
qed

theorem save_load_witness:
  "\<exists>st st' :: app_state. persistent (store st) ''a.io'' = Some (local_rule ''a.io'' 1 False) \<and>
     ephemeral (store st) ''a.io'' = Some (local_rule ''a.io'' 2 False) \<and>
     st' = snd (load_rules id (save (\<lambda>c d. (True, Some c)) st None) (app_state_new False)) \<and>
     persistent (store st') ''a.io'' = Some (local_rule ''a.io'' 1 False) \<and> ephemeral (store st') ''a.io'' = None"
proof -
  let ?req = "\<lambda>mk p. mk ''a.io'' (SocketAddrV4 ipv4_localhost p) False"
  let ?st = "snd (handle_all [?req Add 1, ?req AddEphemeral 2] (app_state_new False))"
  have v: "validate_domain ''a.io''" by (subst validate_domain_eq_ok, simp, code_simp)
  have l: "to_lowercase ''a.io'' = ''a.io''" by code_simp
  have st: "persistent (store ?st) ''a.io'' = Some (local_rule ''a.io'' 1 False)"
      "ephemeral (store ?st) ''a.io'' = Some (local_rule ''a.io'' 2 False)"
    using v l
    by (simp_all add: handler_defs store_method_defs pers.layer_add eph.layer_add pers.add_inv app_state_new_def)
  have inv: "app_inv ?st" by (rule handle_all_inv) simp
  have "confy_ok (\<lambda>c d. (True, Some c)) id \<lparr>rules = snapshot_permanent ?st\<rparr> None" by (simp add: confy_ok_def)
  from save_load [OF inv this refl, of False] st show ?thesis
    by (intro exI [of _ ?st] exI [of _ "snd (load_rules id (save (\<lambda>c d. (True, Some c)) ?st None) (app_state_new False))"])
       (simp del: handle_all.simps)
qed

text \<open>
  The socket of a daemon on macOS keeps the mode the process's umask gives it: the mode is
  changed before the listener creates the file and after the stale file is gone, so only on
  Linux can every user write to it.
\<close>

theorem socket_mode:
  "serve_setup Linux None None u f = (None, Some mode_666) \<and> serve_setup MacOs None None u f = (None, Some u)"
  by (simp add: serve_setup_def)

end
