(* ===== verification/Resolver.thy ===== *)
theory Resolver
  imports Ipc
begin

text \<open>
  The caching resolver shared by the DNS server and the proxy (core/src/dns/resolver.rs): rules
  by domain in front of the store, certificates by domain in front of the certificate
  authority, the invalidation of both, and the choice of a certificate for a TLS client. The
  certificate authority is a parameter \<open>sign\<close> that may fail.

  The interface \<open>memo_cache\<close> states what makes a cache in front of a lookup function coherent;
  it is interpreted on the resolver.
\<close>

section \<open>The resolver\<close>

record ('ca, 'cert) domain_resolver =
  cert_authority :: "'ca option"
  cache :: "dns_rule table"
  certs_cache :: "'cert table"

type_synonym ('ca, 'cert) sign = "'ca \<Rightarrow> string list \<Rightarrow> 'cert option"

definition domain_resolver_new :: "'ca option \<Rightarrow> ('ca, 'cert) domain_resolver" where
  "domain_resolver_new ca = \<lparr>cert_authority = ca, cache = [], certs_cache = []\<rparr>"

text \<open>\<^verbatim>\<open>Ca::is_installed\<close> is passed as its result.\<close>

definition is_cert_installed :: "bool \<Rightarrow> ('ca, 'cert) domain_resolver \<Rightarrow> bool" where
  "is_cert_installed installed res = (cert_authority res \<noteq> None \<and> installed)"

definition resolve_domain ::
    "inner_rule_store \<Rightarrow> string \<Rightarrow> ('ca, 'cert) domain_resolver \<Rightarrow> dns_rule option \<times> ('ca, 'cert) domain_resolver" where
  "resolve_domain s d res =
     (case map_of (cache res) d of
        Some rule \<Rightarrow> (Some rule, res)
      | None \<Rightarrow>
          (case store_resolve s d of
             None \<Rightarrow> (None, res)
           | Some rule \<Rightarrow> (Some rule, res\<lparr>cache := AList.update d rule (cache res)\<rparr>)))"

definition sign_domain ::
    "('ca, 'cert) sign \<Rightarrow> string \<Rightarrow> ('ca, 'cert) domain_resolver \<Rightarrow> 'cert option \<times> ('ca, 'cert) domain_resolver" where
  "sign_domain sign d res =
     (case cert_authority res of
        None \<Rightarrow> (None, res)
      | Some ca \<Rightarrow>
          (case sign ca [d] of
             None \<Rightarrow> (None, res)
           | Some cert \<Rightarrow> (Some cert, res\<lparr>certs_cache := AList.update d cert (certs_cache res)\<rparr>)))"

definition invalidate :: "dns_rule \<Rightarrow> ('ca, 'cert) domain_resolver \<Rightarrow> ('ca, 'cert) domain_resolver" where
  "invalidate rule res =
     (case strip_prefix ''*.'' (domain rule) of
        Some suf \<Rightarrow>
          (let retain = (\<lambda>key. \<not> dotted_suffix key suf)
           in res\<lparr>cache := filter (\<lambda>(key, _). retain key) (cache res),
                certs_cache := filter (\<lambda>(key, _). retain key) (certs_cache res)\<rparr>)
      | None \<Rightarrow>
          res\<lparr>cache := AList.delete (domain rule) (cache res),
            certs_cache := AList.delete (domain rule) (certs_cache res)\<rparr>)"

text \<open>\<^verbatim>\<open>ResolvesServerCert::resolve\<close>: the server name of the client hello, if any.\<close>

definition resolve_cert ::
    "('ca, 'cert) sign \<Rightarrow> inner_rule_store \<Rightarrow> string option \<Rightarrow> ('ca, 'cert) domain_resolver \<Rightarrow>
     'cert option \<times> ('ca, 'cert) domain_resolver" where
  "resolve_cert sign s server_name res =
     (case server_name of
        None \<Rightarrow> (None, res)
      | Some d \<Rightarrow>
          if cert_authority res = None then (None, res)
          else (let (rule, res1) = resolve_domain s d res in
                if \<not> (case rule of Some r \<Rightarrow> https r | None \<Rightarrow> False) then (None, res1)
                else (case map_of (certs_cache res1) d of
                        Some cert \<Rightarrow> (Some cert, res1)
                      | None \<Rightarrow> sign_domain sign d res1)))"

section \<open>Coherence of a cache\<close>

text \<open>
  A cache in front of a lookup function: what was put is found, what is dropped is not, and
  nothing else changes.
\<close>

locale memo_cache =
  fixes lookup :: "'s \<Rightarrow> 'k \<Rightarrow> 'v option"
    and get :: "'c \<Rightarrow> 'k \<Rightarrow> 'v option"
    and put :: "'k \<Rightarrow> 'v \<Rightarrow> 'c \<Rightarrow> 'c"
    and purge :: "'p \<Rightarrow> 'c \<Rightarrow> 'c"
    and covers :: "'p \<Rightarrow> 'k \<Rightarrow> bool"
  assumes get_put: "get (put k v c) x = (if x = k then Some v else get c x)"
    and get_purge: "get (purge p c) x = (if covers p x then None else get c x)"
begin

text \<open>
  Every entry is what the lookup gives, except those that a pending purge covers.
\<close>

definition coherent :: "'s \<Rightarrow> 'p list \<Rightarrow> 'c \<Rightarrow> bool" where
  "coherent s ps c = (\<forall>k v. get c k = Some v \<longrightarrow> lookup s k = Some v \<or> list_ex (\<lambda>p. covers p k) ps)"

lemma coherentD: "coherent s [] c \<Longrightarrow> get c k = Some v \<Longrightarrow> lookup s k = Some v"
  by (auto simp: coherent_def)

lemma coherent_put: "coherent s ps c \<Longrightarrow> lookup s k = Some v \<Longrightarrow> coherent s ps (put k v c)"
  by (simp add: coherent_def get_put)

lemma coherent_purge: "coherent s (p # ps) c \<Longrightarrow> coherent s ps (purge p c)"
  by (auto simp: coherent_def get_purge)

lemma coherent_purge_any: "coherent s ps c \<Longrightarrow> coherent s ps (purge p c)"
  by (auto simp: coherent_def get_purge)

text \<open>A change of the source is harmless if the new purges cover every key it changes.\<close>

lemma coherent_change:
  assumes "coherent s ps c" "\<And>k. \<not> list_ex (\<lambda>p. covers p k) qs \<Longrightarrow> lookup s' k = lookup s k"
  shows "coherent s' (ps @ qs) c"
  using assms by (force simp: coherent_def)

end

lemma map_of_filter_key: "map_of (filter (\<lambda>(k, _). P k) m) x = (if P x then map_of m x else None)"
  by (induction m) auto

lemma invalidate_get:
  "map_of (cache (invalidate r res)) x = (if matches r x then None else map_of (cache res) x)"
  "map_of (certs_cache (invalidate r res)) x = (if matches r x then None else map_of (certs_cache res) x)"
  by (auto simp: invalidate_def matches_def map_of_filter_key table_simps Let_def split: option.split)

lemma invalidate_authority [simp]: "cert_authority (invalidate r res) = cert_authority res"
  by (simp add: invalidate_def Let_def split: option.split)

interpretation rules: memo_cache inner_resolve "\<lambda>res. map_of (cache res)"
    "\<lambda>d r res. res\<lparr>cache := AList.update d r (cache res)\<rparr>" invalidate matches
  by unfold_locales (simp_all add: table_simps invalidate_get)

section \<open>Rules and their caches over time\<close>

text \<open>
  The rule an event names, and what one request makes the watch task invalidate.
\<close>

fun event_rule :: "dns_event \<Rightarrow> dns_rule option" where
  "event_rule (RuleAdded r) = Some r"
| "event_rule (RuleRemoved r) = Some r"
| "event_rule (EphemeralAdded r) = Some r"
| "event_rule (EphemeralRemoved r) = Some r"
| "event_rule DaemonStopped = None"

text \<open>
  In each layer no name is matched by two wildcards. Removing a wildcard reorders the others, so
  without this the rule that answers a name can change although the removed rule did not match it.
\<close>

definition no_overlap :: "inner_rule_store \<Rightarrow> bool" where
  "no_overlap s = (\<forall>d. single_match (\<lambda>q. matches q d) (persistent_wildcard s) \<and>
     single_match (\<lambda>q. matches q d) (ephemeral_wildcard s))"

lemma op_frame:
  assumes inv: "store_inv s" and ov: "no_overlap s"
    and ev: "\<forall>e\<in>set (op_event op (store_abs s)). \<forall>r. event_rule e = Some r \<longrightarrow> \<not> matches r d"
    and one: "\<forall>rs. op \<noteq> OpAddAll rs"
  shows "inner_resolve (snd (store_apply op s)) d = inner_resolve s d"
proof (cases op)
  case (OpRemove n)
  show ?thesis
  proof (cases "fst (inner_remove n s)")
    case None
    with OpRemove inner_remove_None [OF None, of d] show ?thesis
      by (simp add: store_method_defs map_prod_def split_beta)
  next
    case (Some r)
    with inv ev OpRemove have "\<not> matches r d" by (simp add: pers.removed)
    with inner_resolve_frame_remove [OF inv Some] ov OpRemove show ?thesis
      by (simp add: store_method_defs map_prod_def split_beta no_overlap_def)
  qed
next
  case (OpRemoveEphemeral n)
  show ?thesis
  proof (cases "fst (inner_remove_ephemeral n s)")
    case None
    with OpRemoveEphemeral inner_remove_ephemeral_None [OF None, of d] show ?thesis
      by (simp add: store_method_defs map_prod_def split_beta)
  next
    case (Some r)
    with inv ev OpRemoveEphemeral have "\<not> matches r d" by (simp add: eph.removed)
    with inner_resolve_frame_remove_ephemeral [OF inv Some] ov OpRemoveEphemeral show ?thesis
      by (simp add: store_method_defs map_prod_def split_beta no_overlap_def)
  qed
qed (use inv ev one in \<open>simp_all add: store_method_defs map_prod_def inner_resolve_frame_add\<close>)

definition request_rules :: "ipc_request \<Rightarrow> app_state \<Rightarrow> dns_rule list" where
  "request_rules r st = List.map_filter event_rule (task_events r st)"

lemma request_rules_spec:
  "app_inv st \<Longrightarrow> request_rules r st = List.map_filter event_rule (spec_events r (store_abs (store st)))"
  by (simp add: request_rules_def task_events_def handle_events)

lemma handle_frame:
  assumes "app_inv st" "no_overlap (store st)" "\<not> list_ex (\<lambda>q. matches q d) (request_rules r st)"
  shows "inner_resolve (store (snd (handle r st))) d = inner_resolve (store st) d"
proof (cases "request_op r")
  case None
  then show ?thesis by (simp add: handle_store)
next
  case (Some op)
  then have "r \<noteq> Stop" "\<forall>rs. op \<noteq> OpAddAll rs" by (cases r; auto split: if_splits)+
  moreover have "\<forall>e\<in>set (op_event op (store_abs (store st))). \<forall>q. event_rule e = Some q \<longrightarrow> \<not> matches q d"
    using assms Some \<open>r \<noteq> Stop\<close>
    by (force simp: request_rules_spec spec_events_def list_ex_iff List.map_filter_def)
  ultimately show ?thesis
    using op_frame [of "store st" op d] assms(1,2) Some by (simp add: handle_store)
qed

lemma resolve_domain_coherent:
  assumes "rules.coherent s [] res"
  shows "fst (resolve_domain s d res) = inner_resolve s d"
    and "rules.coherent s [] (snd (resolve_domain s d res))"
  using assms rules.coherentD [OF assms, of d] rules.coherent_put [OF assms, of d]
  by (auto simp: resolve_domain_def store_resolve_def split: option.split)

lemma resolve_domain_pending:
  assumes "rules.coherent s ps res"
  shows "rules.coherent s ps (snd (resolve_domain s d res))"
  using assms rules.coherent_put [OF assms, of d]
  by (simp add: resolve_domain_def store_resolve_def split: option.split)

lemma resolve_domain_frame [simp]:
  "cert_authority (snd (resolve_domain s d res)) = cert_authority res"
  "certs_cache (snd (resolve_domain s d res)) = certs_cache res"
  by (simp_all add: resolve_domain_def split: option.split)

lemma sign_domain_frame [simp]:
  "cert_authority (snd (sign_domain sign d res)) = cert_authority res"
  "cache (snd (sign_domain sign d res)) = cache res"
  by (simp_all add: sign_domain_def split: option.split)

lemma coherent_cache: "cache res' = cache res \<Longrightarrow> rules.coherent s ps res' = rules.coherent s ps res"
  by (simp add: rules.coherent_def)

lemma resolve_cert_pending:
  "rules.coherent s ps res \<Longrightarrow> rules.coherent s ps (snd (resolve_cert sign s n res))"
  using resolve_domain_pending [of s ps res]
    coherent_cache [OF sign_domain_frame(2), of s ps sign]
  by (simp add: resolve_cert_def split_beta Let_def split: option.split)

text \<open>Every cached certificate was signed for the name it is cached under.\<close>

definition certs_ok :: "('cert \<Rightarrow> string \<Rightarrow> bool) \<Rightarrow> ('ca, 'cert) domain_resolver \<Rightarrow> bool" where
  "certs_ok valid_for res = (\<forall>d c. map_of (certs_cache res) d = Some c \<longrightarrow> valid_for c d)"

lemma certs_ok_new: "certs_ok v (domain_resolver_new ca)"
  by (simp add: certs_ok_def domain_resolver_new_def)

lemma certs_ok_invalidate: "certs_ok v res \<Longrightarrow> certs_ok v (invalidate r res)"
  by (simp add: certs_ok_def invalidate_get)

lemma certs_ok_cong: "certs_cache res' = certs_cache res \<Longrightarrow> certs_ok v res' = certs_ok v res"
  by (simp add: certs_ok_def)

lemma certs_ok_resolve: "certs_ok v res \<Longrightarrow> certs_ok v (snd (resolve_domain s d res))"
  by (simp add: certs_ok_cong [OF resolve_domain_frame(2)])

lemma certs_ok_sign:
  assumes "certs_ok v res" "\<forall>ca c. sign ca [d] = Some c \<longrightarrow> v c d"
  shows "certs_ok v (snd (sign_domain sign d res))"
    and "fst (sign_domain sign d res) = Some c \<Longrightarrow> v c d"
  using assms by (auto simp: certs_ok_def sign_domain_def table_simps split: option.splits)

section \<open>Properties\<close>

text \<open>
  A coherent cache is invisible: the caching resolver answers what the store answers, hit or
  miss, and its cache stays coherent.
\<close>

theorem resolve_domain_eq_store:
  assumes "\<forall>k r. map_of (cache res) k = Some r \<longrightarrow> inner_resolve s k = Some r"
  shows "fst (resolve_domain s d res) = inner_resolve s d \<and>
    (\<forall>k r. map_of (cache (snd (resolve_domain s d res))) k = Some r \<longrightarrow> inner_resolve s k = Some r)"
  using assms resolve_domain_coherent [of s res d] by (simp add: rules.coherent_def)

theorem resolve_domain_eq_store_witness:
  "fst (resolve_domain (inner_add (local_rule ''a.io'' 1 False) inner_new) ''a.io''
     (domain_resolver_new None :: (unit, unit) domain_resolver)) = Some (local_rule ''a.io'' 1 False)"
proof -
  let ?s = "inner_add (local_rule ''a.io'' 1 False) inner_new"
  have "inner_resolve ?s ''a.io'' = Some (local_rule ''a.io'' 1 False)" by code_simp
  with resolve_domain_eq_store [of "domain_resolver_new None :: (unit, unit) domain_resolver" ?s "''a.io''"]
  show ?thesis by (simp add: domain_resolver_new_def)
qed

text \<open>
  Invalidating a rule drops exactly the cached rules and certificates of the names the rule
  matches, for exact and for wildcard rules, and keeps every other entry.
\<close>

theorem invalidate_exact:
  "map_of (cache (invalidate r res)) d = (if matches r d then None else map_of (cache res) d) \<and>
   map_of (certs_cache (invalidate r res)) d = (if matches r d then None else map_of (certs_cache res) d)"
  by (simp add: invalidate_get)

text \<open>
  A TLS client gets a certificate only if it names a server, the daemon has a certificate
  authority, and the rule in force for that very name has HTTPS on; the certificate is one
  signed for that name. Without a name, an authority or such a rule it gets none.
\<close>

theorem resolve_cert_sound:
  assumes "\<forall>k r. map_of (cache res) k = Some r \<longrightarrow> inner_resolve s k = Some r"
    and "certs_ok valid_for res" and "\<forall>ca d c. sign ca [d] = Some c \<longrightarrow> valid_for c d"
  shows "(\<forall>c. fst (resolve_cert sign s n res) = Some c \<longrightarrow>
      (\<exists>d r. n = Some d \<and> cert_authority res \<noteq> None \<and> inner_resolve s d = Some r \<and> https r \<and> valid_for c d)) \<and>
    certs_ok valid_for (snd (resolve_cert sign s n res))"
proof (cases n)
  case (Some d)
  have r: "fst (resolve_domain s d res) = inner_resolve s d"
    using assms(1) resolve_domain_coherent(1) [of s res d] by (simp add: rules.coherent_def)
  let ?res1 = "snd (resolve_domain s d res)"
  have ok: "certs_ok valid_for ?res1" using assms(2) by (rule certs_ok_resolve)
  have "certs_ok valid_for (snd (sign_domain sign d ?res1))"
    "fst (sign_domain sign d ?res1) = Some c \<Longrightarrow> valid_for c d" for c
    using certs_ok_sign [OF ok] assms(3) by blast+
  moreover have "map_of (certs_cache ?res1) d = Some c \<Longrightarrow> valid_for c d" for c
    using ok by (simp add: certs_ok_def)
  ultimately show ?thesis
    using Some r ok assms(2)
    by (auto simp: resolve_cert_def split_beta Let_def split: option.splits if_splits)
qed (use assms in \<open>simp add: resolve_cert_def\<close>)

theorem resolve_cert_sound_witness:
  "certs_ok (=) (domain_resolver_new (Some ()) :: (unit, string) domain_resolver) \<and>
   fst (resolve_cert (\<lambda>ca ds. Some (hd ds)) (inner_add (local_rule ''a.io'' 1 True) inner_new) (Some ''a.io'')
     (domain_resolver_new (Some ()))) = Some ''a.io'' \<and>
   certs_ok (=) (snd (resolve_cert (\<lambda>ca ds. Some (hd ds)) (inner_add (local_rule ''a.io'' 1 True) inner_new) (Some ''a.io'')
     (domain_resolver_new (Some ()))))"
proof -
  let ?res = "domain_resolver_new (Some ()) :: (unit, string) domain_resolver"
  let ?s = "inner_add (local_rule ''a.io'' 1 True) inner_new"
  let ?sign = "\<lambda>(ca :: unit) (ds :: string list). Some (hd ds)"
  have c: "certs_ok (=) ?res" by (rule certs_ok_new)
  moreover have "fst (resolve_cert ?sign ?s (Some ''a.io'') ?res) = Some ''a.io''" by code_simp
  moreover have "certs_ok (=) (snd (resolve_cert ?sign ?s (Some ''a.io'') ?res))"
    using resolve_cert_sound [of ?res ?s "(=)" ?sign "Some ''a.io''"] c
    by (simp add: domain_resolver_new_def)
  ultimately show ?thesis by blast
qed

end
