(* ===== verification/DnsServer.thy ===== *)
theory DnsServer
  imports Resolver Net
begin

text \<open>
  The DNS request handler (core/src/dns/server.rs) and the task that runs the server
  (core/src/dns/mod.rs).

  The third-party parts are the fields of \<open>dns_env\<close>: the header of a response to a request, the
  parser of names, the upstream resolver and the responder, which may fail. The handler's own
  effects are the responses it hands to the responder, in order, the questions it puts to the
  upstream resolver, and the resolver's caches.
\<close>

section \<open>Messages\<close>

datatype record_type = RT_A | RT_AAAA | RT_other u16

datatype response_code = NoError | NXDomain | ServFail | OtherCode u16

text \<open>A header: what the handler sets, and the rest, which a response copies from its request.\<close>

record 'x header =
  message_type_response :: bool
  authoritative :: bool
  response_code :: response_code
  header_rest :: 'x

datatype rdata = RData_A ipv4_addr | RData_AAAA ipv6_addr

datatype ('n, 'r) answer = Local 'n u32 rdata | Upstream 'r

record ('x, 'n, 'r) response =
  resp_header :: "'x header"
  resp_answers :: "('n, 'r) answer list"

record 'x request =
  query_name :: string
  query_type :: record_type
  req_header :: "'x header"

text \<open>What the upstream resolver gives: records, no records (with the code it saw), or another error.\<close>

datatype 'r lookup_result = Records "'r list" | NoRecordsFound response_code | LookupError string

record ('x, 'n, 'r, 'i) dns_env =
  response_from_request :: "'x header \<Rightarrow> 'x header"
  name_from_ascii :: "string \<Rightarrow> string + 'n"
  upstream_lookup :: "string \<Rightarrow> record_type \<Rightarrow> 'r lookup_result"
  send_response :: "('x, 'n, 'r) response \<Rightarrow> string + 'i"
  empty_info :: 'i

text \<open>The outcome of a step of the handler: a result and the effects so far.\<close>

record ('x, 'n, 'r) dns_effects =
  sent :: "('x, 'n, 'r) response list"
  asked :: "(string \<times> record_type) list"

definition no_effects :: "('x, 'n, 'r) dns_effects" where
  "no_effects = \<lparr>sent = [], asked = []\<rparr>"

definition send_with ::
    "('x, 'n, 'r, 'i) dns_env \<Rightarrow> ('x, 'n, 'r) response \<Rightarrow> ('x, 'n, 'r) dns_effects \<Rightarrow> (string + 'i) \<times> ('x, 'n, 'r) dns_effects" where
  "send_with env r eff = (send_response env r, eff\<lparr>sent := sent eff @ [r]\<rparr>)"

section \<open>The handler\<close>

definition respond_local ::
    "('x, 'n, 'r, 'i) dns_env \<Rightarrow> ip_addr \<Rightarrow> string \<Rightarrow> record_type \<Rightarrow> 'x request \<Rightarrow> ('x, 'n, 'r) dns_effects \<Rightarrow>
     (string + 'i) \<times> ('x, 'n, 'r) dns_effects" where
  "respond_local env ip d qtype req eff =
     (case name_from_ascii env (d @ ''.'') of
        Inl e \<Rightarrow> (Inl e, eff)
      | Inr name \<Rightarrow>
          (let hd = (response_from_request env (req_header req))
                 \<lparr>message_type_response := True, authoritative := True, response_code := NoError\<rparr>;
               build = (\<lambda>answers. \<lparr>resp_header = hd, resp_answers = answers\<rparr>)
           in case ip of
                V4 v4 \<Rightarrow>
                  if qtype = RT_A
                  then send_with env (build [Local name DNS_RECORD_TTL_SECONDS (RData_A v4)]) eff
                  else send_with env (build []) eff
              | V6 v6 \<Rightarrow>
                  if qtype = RT_AAAA
                  then send_with env (build [Local name DNS_RECORD_TTL_SECONDS (RData_AAAA v6)]) eff
                  else send_with env (build []) eff))"

definition forward ::
    "('x, 'n, 'r, 'i) dns_env \<Rightarrow> string \<Rightarrow> record_type \<Rightarrow> 'x request \<Rightarrow> ('x, 'n, 'r) dns_effects \<Rightarrow>
     (string + 'i) \<times> ('x, 'n, 'r) dns_effects" where
  "forward env d qtype req eff =
     (let eff1 = eff\<lparr>asked := asked eff @ [(d @ ''.'', qtype)]\<rparr>;
          hd = (response_from_request env (req_header req))\<lparr>message_type_response := True, response_code := NoError\<rparr>
      in case upstream_lookup env (d @ ''.'') qtype of
           Records rs \<Rightarrow> send_with env \<lparr>resp_header = hd, resp_answers = map Upstream rs\<rparr> eff1
         | NoRecordsFound _ \<Rightarrow>
             send_with env \<lparr>resp_header = hd\<lparr>response_code := NXDomain\<rparr>, resp_answers = []\<rparr> eff1
         | LookupError _ \<Rightarrow>
             send_with env \<lparr>resp_header = hd\<lparr>response_code := ServFail\<rparr>, resp_answers = []\<rparr> eff1)"

definition dns_resolve ::
    "('x, 'n, 'r, 'i) dns_env \<Rightarrow> inner_rule_store \<Rightarrow> string \<Rightarrow> record_type \<Rightarrow> 'x request \<Rightarrow> ('x, 'n, 'r) dns_effects \<Rightarrow>
     ('ca, 'cert) domain_resolver \<Rightarrow> ((string + 'i) \<times> ('x, 'n, 'r) dns_effects) \<times> ('ca, 'cert) domain_resolver" where
  "dns_resolve env s d qtype req eff res =
     (if qtype = RT_A \<or> qtype = RT_AAAA
      then (let (rule, res') = resolve_domain s d res
            in if rule \<noteq> None then (respond_local env (addr_ip PROXY_LISTEN_ADDR) d qtype req eff, res')
               else (forward env d qtype req eff, res'))
      else (forward env d qtype req eff, res))"

definition query_domain :: "'x request \<Rightarrow> string" where
  "query_domain req = to_lowercase (trim_end_matches (CHR ''.'') (query_name req))"

definition handle_request ::
    "('x, 'n, 'r, 'i) dns_env \<Rightarrow> inner_rule_store \<Rightarrow> 'x request \<Rightarrow> ('ca, 'cert) domain_resolver \<Rightarrow>
     'i \<times> ('x, 'n, 'r) dns_effects \<times> ('ca, 'cert) domain_resolver" where
  "handle_request env s req res =
     (let d = query_domain req;
          ((result, eff), res') = dns_resolve env s d (query_type req) req no_effects res
      in case result of
           Inr info \<Rightarrow> (info, eff, res')
         | Inl e \<Rightarrow>
             (let hd = (response_from_request env (req_header req))\<lparr>response_code := ServFail\<rparr>;
                  (result2, eff2) = send_with env \<lparr>resp_header = hd, resp_answers = []\<rparr> eff
              in (case result2 of Inr info \<Rightarrow> info | Inl _ \<Rightarrow> empty_info env, eff2, res')))"

section \<open>The server task\<close>

text \<open>
  \<^verbatim>\<open>run_dns_server\<close>: the upstream configuration, the two sockets, then the server until it is
  cancelled or ends. Each step that can fail carries its error; an error of the server itself
  is only logged.
\<close>

datatype server_exit = ExitOk | ExitError string

definition run_dns_server ::
    "(string + 'u) \<Rightarrow> (socket_addr \<Rightarrow> string + unit) \<Rightarrow> (socket_addr \<Rightarrow> string + unit) \<Rightarrow> bool \<Rightarrow>
     (string + unit) \<Rightarrow> server_exit" where
  "run_dns_server upstream bind_udp bind_tcp cancel shutdown =
     (case upstream of
        Inl e \<Rightarrow> ExitError e
      | Inr _ \<Rightarrow>
          (case bind_udp DNS_LISTEN_ADDR of
             Inl e \<Rightarrow> ExitError e
           | Inr _ \<Rightarrow>
               (case bind_tcp DNS_LISTEN_ADDR of
                  Inl e \<Rightarrow> ExitError e
                | Inr _ \<Rightarrow>
                    if cancel then (case shutdown of Inl e \<Rightarrow> ExitError e | Inr _ \<Rightarrow> ExitOk)
                    else ExitOk)))"

section \<open>Properties\<close>

text \<open>The response to an intercepted query and to a forwarded one.\<close>

definition local_reply :: "('x, 'n, 'r, 'i) dns_env \<Rightarrow> 'x request \<Rightarrow> 'n \<Rightarrow> ('x, 'n, 'r) response" where
  "local_reply env req name =
     \<lparr>resp_header = (response_from_request env (req_header req))
        \<lparr>message_type_response := True, authoritative := True, response_code := NoError\<rparr>,
      resp_answers = (if query_type req = RT_A then [Local name 10 (RData_A (Ipv4Addr 127 0 0 42))] else [])\<rparr>"

fun reply_code :: "'r lookup_result \<Rightarrow> response_code" where
  "reply_code (Records rs) = NoError"
| "reply_code (NoRecordsFound c) = NXDomain"
| "reply_code (LookupError e) = ServFail"

fun reply_records :: "'r lookup_result \<Rightarrow> 'r list" where
  "reply_records (Records rs) = rs"
| "reply_records x = []"

definition forward_reply :: "('x, 'n, 'r, 'i) dns_env \<Rightarrow> 'x request \<Rightarrow> ('x, 'n, 'r) response" where
  "forward_reply env req =
     (let result = upstream_lookup env (query_domain req @ ''.'') (query_type req)
      in \<lparr>resp_header = (response_from_request env (req_header req))
            \<lparr>message_type_response := True, response_code := reply_code result\<rparr>,
          resp_answers = map Upstream (reply_records result)\<rparr>)"

definition intercepted :: "inner_rule_store \<Rightarrow> 'x request \<Rightarrow> bool" where
  "intercepted s req = ((query_type req = RT_A \<or> query_type req = RT_AAAA) \<and> inner_resolve s (query_domain req) \<noteq> None)"

lemma dns_resolve_local:
  assumes "rules.coherent s [] res" "intercepted s req" "name_from_ascii env (query_domain req @ ''.'') = Inr name"
  shows "fst (dns_resolve env s (query_domain req) (query_type req) req eff res) =
    send_with env (local_reply env req name) eff"
  using assms resolve_domain_coherent(1) [OF assms(1), of "query_domain req"]
  by (auto simp: dns_resolve_def intercepted_def respond_local_def local_reply_def split_beta Let_def
    PROXY_LISTEN_ADDR_def DNS_RECORD_TTL_SECONDS_def)

lemma handle_request_local:
  assumes "rules.coherent s [] res" "intercepted s req"
    and "name_from_ascii env (query_domain req @ ''.'') = Inr name"
    and "send_response env (local_reply env req name) = Inr info"
  shows "fst (handle_request env s req res) = info \<and>
    fst (snd (handle_request env s req res)) = \<lparr>sent = [local_reply env req name], asked = []\<rparr>"
  using assms(4) dns_resolve_local [OF assms(1-3), of no_effects]
  by (simp add: handle_request_def split_beta Let_def send_with_def no_effects_def)

lemma forward_eq:
  "forward env (query_domain req) (query_type req) req eff =
     send_with env (forward_reply env req) (eff\<lparr>asked := asked eff @ [(query_domain req @ ''.'', query_type req)]\<rparr>)"
  by (simp add: forward_def forward_reply_def Let_def split: lookup_result.split)

lemma dns_resolve_forward:
  assumes "rules.coherent s [] res" "\<not> intercepted s req"
  shows "fst (dns_resolve env s (query_domain req) (query_type req) req eff res) =
    forward env (query_domain req) (query_type req) req eff"
  using assms resolve_domain_coherent(1) [OF assms(1), of "query_domain req"]
  by (auto simp: dns_resolve_def intercepted_def split_beta Let_def)

lemma dns_resolve_cache:
  assumes "rules.coherent s ps res"
  shows "rules.coherent s ps (snd (dns_resolve env s d q req eff res))"
  using assms resolve_domain_pending [OF assms, of d] by (simp add: dns_resolve_def split_beta Let_def)

lemma handle_request_cache:
  "rules.coherent s ps res \<Longrightarrow> rules.coherent s ps (snd (snd (handle_request env s req res)))"
  using dns_resolve_cache by (auto simp: handle_request_def split_beta Let_def split: sum.split)

lemma respond_local_outcome:
  "(\<exists>e. respond_local env ip d q req no_effects = (Inl e, no_effects)) \<or>
   (\<exists>r. respond_local env ip d q req no_effects = send_with env r \<lparr>sent = [], asked = []\<rparr> \<and>
     response_code (resp_header r) = NoError)"
proof (cases "name_from_ascii env (d @ ''.'')")
  case (Inr name)
  then show ?thesis
    by (cases ip) (auto simp: respond_local_def Let_def no_effects_def intro!: exI)
qed (simp add: respond_local_def)

lemma forward_outcome:
  "\<exists>r. forward env d q req no_effects = send_with env r \<lparr>sent = [], asked = [(d @ ''.'', q)]\<rparr> \<and>
     (resp_answers r = [] \<or> response_code (resp_header r) = NoError)"
  by (cases "upstream_lookup env (d @ ''.'') q") (auto simp: forward_def Let_def no_effects_def intro!: exI)

text \<open>Either nothing was sent and there is an error, or exactly one response was.\<close>

lemma dns_resolve_outcome:
  fixes env :: "('x, 'n, 'r, 'i) dns_env"
  assumes failed: "\<And>e. fst (dns_resolve env s d q req no_effects res) = (Inl e, no_effects) \<Longrightarrow> thesis"
    and replied: "\<And>r qs. fst (dns_resolve env s d q req no_effects res) = send_with env r \<lparr>sent = [], asked = qs\<rparr> \<Longrightarrow>
      length qs \<le> 1 \<Longrightarrow> resp_answers r = [] \<or> response_code (resp_header r) = NoError \<Longrightarrow> thesis"
  shows thesis
proof -
  have "fst (dns_resolve env s d q req no_effects res) = forward env d q req no_effects \<or>
      fst (dns_resolve env s d q req no_effects res) = respond_local env (addr_ip PROXY_LISTEN_ADDR) d q req no_effects"
    by (simp add: dns_resolve_def split_beta Let_def)
  then show thesis
  proof
    assume "fst (dns_resolve env s d q req no_effects res) = forward env d q req no_effects"
    with forward_outcome [of env d q req] obtain r where
      "fst (dns_resolve env s d q req no_effects res) = send_with env r \<lparr>sent = [], asked = [(d @ ''.'', q)]\<rparr>"
      "resp_answers r = [] \<or> response_code (resp_header r) = NoError" by metis
    then show thesis using replied [of r "[(d @ ''.'', q)]"] by simp
  next
    assume "fst (dns_resolve env s d q req no_effects res) = respond_local env (addr_ip PROXY_LISTEN_ADDR) d q req no_effects"
    with respond_local_outcome [of env "addr_ip PROXY_LISTEN_ADDR" d q req] show thesis
      using failed replied [of _ "[]"] by auto
  qed
qed

text \<open>
  C10. A query for an A or AAAA record of a name with a rule, in any case and with or without
  the final dot, is answered locally with one authoritative response: the proxy's address
  127.0.0.42 with a ten-second lifetime for A, no records for AAAA. The upstream resolver is
  not asked.
\<close>

theorem local_query_answer:
  assumes "\<forall>k r. map_of (cache res) k = Some r \<longrightarrow> inner_resolve s k = Some r"
    and "intercepted s req" and "name_from_ascii env (query_domain req @ ''.'') = Inr name"
    and "send_response env (local_reply env req name) = Inr info"
  shows "fst (handle_request env s req res) = info \<and>
    fst (snd (handle_request env s req res)) = \<lparr>sent = [local_reply env req name], asked = []\<rparr>"
  using handle_request_local [OF _ assms(2-4)] assms(1) by (simp add: rules.coherent_def)

theorem local_query_answer_witness:
  "\<exists>(env :: (unit, string, unit, nat) dns_env) req.
     query_name req = ''API.Local.'' \<and> query_type req = RT_A \<and>
     fst (snd (handle_request env (inner_add (local_rule ''api.local'' 3000 False) inner_new) req
       (domain_resolver_new None :: (unit, unit) domain_resolver))) =
     \<lparr>sent = [local_reply env req ''api.local.''], asked = []\<rparr>"
proof -
  let ?s = "inner_add (local_rule ''api.local'' 3000 False) inner_new"
  let ?res = "domain_resolver_new None :: (unit, unit) domain_resolver"
  let ?env = "\<lparr>response_from_request = id, name_from_ascii = Inr, upstream_lookup = \<lambda>d q. LookupError ''down'',
     send_response = \<lambda>r. Inr 1, empty_info = 0\<rparr> :: (unit, string, unit, nat) dns_env"
  let ?req = "\<lparr>query_name = ''API.Local.'', query_type = RT_A,
     req_header = \<lparr>message_type_response = False, authoritative = False, response_code = NoError, header_rest = ()\<rparr>\<rparr>"
  have q: "query_domain ?req = ''api.local''" by code_simp
  have "inner_resolve ?s ''api.local'' = Some (local_rule ''api.local'' 3000 False)" by code_simp
  with q have "intercepted ?s ?req" by (simp add: intercepted_def)
  with local_query_answer [of ?res ?s ?req ?env "''api.local.''" 1] q show ?thesis
    by (intro exI [of _ ?env] exI [of _ ?req]) (simp add: domain_resolver_new_def)
qed

text \<open>
  C39. Every other query, for a name without a rule or for another record type, is put to the
  upstream resolver exactly once, under the lower-case name with one final dot, and the one
  response carries the upstream records, or NXDOMAIN if there are none, or SERVFAIL on another
  error.
\<close>

theorem other_query_forwarded:
  assumes "\<forall>k r. map_of (cache res) k = Some r \<longrightarrow> inner_resolve s k = Some r"
    and "\<not> intercepted s req" and "send_response env (forward_reply env req) = Inr info"
  shows "fst (handle_request env s req res) = info \<and>
    fst (snd (handle_request env s req res)) =
      \<lparr>sent = [forward_reply env req], asked = [(query_domain req @ ''.'', query_type req)]\<rparr>"
  using assms(3) dns_resolve_forward [OF _ assms(2), of res env no_effects] assms(1)
  by (simp add: handle_request_def split_beta Let_def rules.coherent_def forward_eq send_with_def no_effects_def)

theorem other_query_forwarded_witness:
  "\<exists>(env :: (unit, string, nat, nat) dns_env) req.
     query_name req = ''example.com.'' \<and>
     fst (snd (handle_request env inner_new req (domain_resolver_new None :: (unit, unit) domain_resolver))) =
     \<lparr>sent = [forward_reply env req], asked = [(''example.com.'', RT_A)]\<rparr> \<and>
     resp_answers (forward_reply env req) = [Upstream 7]"
proof -
  let ?res = "domain_resolver_new None :: (unit, unit) domain_resolver"
  let ?env = "\<lparr>response_from_request = id, name_from_ascii = Inr, upstream_lookup = \<lambda>d q. Records [7],
     send_response = \<lambda>r. Inr 1, empty_info = 0\<rparr> :: (unit, string, nat, nat) dns_env"
  let ?req = "\<lparr>query_name = ''example.com.'', query_type = RT_A,
     req_header = \<lparr>message_type_response = False, authoritative = False, response_code = NoError, header_rest = ()\<rparr>\<rparr>"
  have q: "query_domain ?req = ''example.com''" by code_simp
  have "inner_resolve inner_new ''example.com'' = None" by code_simp
  with q have "\<not> intercepted inner_new ?req" by (simp add: intercepted_def)
  with other_query_forwarded [of ?res inner_new ?req ?env 1] q show ?thesis
    by (intro exI [of _ ?env] exI [of _ ?req]) (simp add: domain_resolver_new_def forward_reply_def)
qed

text \<open>
  Whatever the upstream resolver, the name parser and the responder do, the handler hands
  the responder one or two responses (a second one, SERVFAIL, only after an error), asks
  upstream at most once, and sends records only in a response without error.
\<close>

theorem every_query_replied:
  "(let eff = fst (snd (handle_request env s req res)) in
     1 \<le> length (sent eff) \<and> length (sent eff) \<le> 2 \<and> length (asked eff) \<le> 1 \<and>
     list_all (\<lambda>r. resp_answers r = [] \<or> response_code (resp_header r) = NoError) (sent eff) \<and>
     list_all (\<lambda>r. response_code (resp_header r) = ServFail \<and> resp_answers r = []) (tl (sent eff)))"
proof -
  obtain rr res' where run: "dns_resolve env s (query_domain req) (query_type req) req no_effects res = (rr, res')"
    by fastforce
  show ?thesis
  proof (rule dns_resolve_outcome [of env s "query_domain req" "query_type req" req res])
    fix e
    assume "fst (dns_resolve env s (query_domain req) (query_type req) req no_effects res) = (Inl e, no_effects)"
    with run show ?thesis
      by (simp add: handle_request_def split_beta Let_def send_with_def no_effects_def)
  next
    fix r qs
    assume "fst (dns_resolve env s (query_domain req) (query_type req) req no_effects res) =
        send_with env r \<lparr>sent = [], asked = qs\<rparr>"
      and "length qs \<le> 1" "resp_answers r = [] \<or> response_code (resp_header r) = NoError"
    with run show ?thesis
      by (cases "send_response env r")
         (simp_all add: handle_request_def split_beta Let_def send_with_def)
  qed
qed

text \<open>
  A name that exists upstream without a record of the asked type (an empty answer without
  error) is reported as a name that does not exist.
\<close>

theorem no_data_becomes_nxdomain:
  "forward (env\<lparr>upstream_lookup := \<lambda>d q. NoRecordsFound NoError\<rparr>) d q req eff =
   send_with (env\<lparr>upstream_lookup := \<lambda>d q. NoRecordsFound NoError\<rparr>)
     \<lparr>resp_header = (response_from_request env (req_header req))\<lparr>message_type_response := True, response_code := NXDomain\<rparr>,
      resp_answers = []\<rparr> (eff\<lparr>asked := asked eff @ [(d @ ''.'', q)]\<rparr>)"
  by (simp add: forward_def)

end
