(* ===== verification/Proxy.thy ===== *)
theory Proxy
  imports Resolver Net
begin

text \<open>
  The HTTP and HTTPS reverse proxy (core/src/proxy/server.rs).

  \<^item> Headers: a header map is a list of name and value pairs, names in lower case (as the
    \<^verbatim>\<open>http\<close> crate keeps them), where \<open>get\<close> is the first value, \<open>insert\<close> replaces all values of
    the name and \<open>remove\<close> drops them all. A value is a byte string; \<open>to_str\<close> gives it as text if
    it is visible ASCII.
  \<^item> The backend is a parameter: whether an address accepts connections, whether the
    HTTP handshake succeeds, and the response to a request.
  \<^item> The connection task and the accept loops, as functions of what their \<^verbatim>\<open>select!\<close> sees.
\<close>

section \<open>Headers\<close>

type_synonym headers = "(string \<times> string) list"

definition hm_get :: "string \<Rightarrow> headers \<Rightarrow> string option" where
  "hm_get n hs = map_of hs n"

definition hm_remove :: "string \<Rightarrow> headers \<Rightarrow> headers" where
  "hm_remove n hs = filter (\<lambda>(k, _). k \<noteq> n) hs"

definition hm_insert :: "string \<Rightarrow> string \<Rightarrow> headers \<Rightarrow> headers" where
  "hm_insert n v hs = hm_remove n hs @ [(n, v)]"

definition hm_get_all :: "string \<Rightarrow> headers \<Rightarrow> string list" where
  "hm_get_all n hs = map snd (filter (\<lambda>(k, _). k = n) hs)"

definition visible :: "char \<Rightarrow> bool" where
  "visible c = (32 \<le> (of_char c :: nat) \<and> (of_char c :: nat) < 127 \<or> c = CHR 0x09)"

definition to_str :: "string \<Rightarrow> string option" where
  "to_str v = (if list_all visible v then Some v else None)"

text \<open>\<^verbatim>\<open>HeaderValue::from_str\<close>: the bytes 32 to 255 except 127, and the tab.\<close>

definition value_byte :: "char \<Rightarrow> bool" where
  "value_byte c = (32 \<le> (of_char c :: nat) \<and> (of_char c :: nat) \<noteq> 127 \<or> c = CHR 0x09)"

definition header_value :: "string \<Rightarrow> string option" where
  "header_value s = (if list_all value_byte s then Some s else None)"

definition HOP_BY_HOP_HEADERS :: "string list" where
  "HOP_BY_HOP_HEADERS = [''proxy-authorization'', ''proxy-authenticate'', ''te'', ''transfer-encoding'',
     ''trailer'', ''proxy-connection'']"

definition is_websocket :: "headers \<Rightarrow> bool" where
  "is_websocket hs =
     (let upgrade = map_option to_ascii_lowercase (Option.bind (hm_get ''upgrade'' hs) to_str);
          connection = to_ascii_lowercase (case Option.bind (hm_get ''connection'' hs) to_str of Some v \<Rightarrow> v | None \<Rightarrow> [])
      in upgrade = Some ''websocket'' \<and> contains connection ''upgrade'')"

definition extract_host :: "headers \<Rightarrow> string option" where
  "extract_host hs = map_option (\<lambda>h. to_lowercase (split_next (CHR '':'') h)) (Option.bind (hm_get ''host'' hs) to_str)"

definition insert_value :: "string \<Rightarrow> string \<Rightarrow> headers \<Rightarrow> headers" where
  "insert_value n s hs = (case header_value s of Some v \<Rightarrow> hm_insert n v hs | None \<Rightarrow> hs)"

definition add_proxy_headers :: "ip_addr \<Rightarrow> bool \<Rightarrow> headers \<Rightarrow> headers" where
  "add_proxy_headers client_ip is_tls hs =
     (let ip_str = ip_to_string client_ip
      in insert_value ''x-forwarded-proto'' (if is_tls then ''https'' else ''http'')
           (insert_value ''x-forwarded-for'' ip_str (insert_value ''x-real-ip'' ip_str hs)))"

definition strip_hop_by_hop :: "headers \<Rightarrow> headers" where
  "strip_hop_by_hop hs =
     (let hs' = fold hm_remove HOP_BY_HOP_HEADERS hs
      in if \<not> is_websocket hs' then hm_remove ''connection'' hs' else hs')"

section \<open>One request\<close>

record 'b http_request =
  req_headers :: headers
  path_and_query :: "string option"
  req_rest :: 'b

record 'p http_response =
  status :: nat
  resp_rest :: 'p

datatype 'p proxy_reply = BadGateway string | MovedPermanently string | Backend "'p http_response"

record ('b, 'p) backend =
  accepts :: "socket_addr \<Rightarrow> bool"
  handshake :: "socket_addr \<Rightarrow> string option"
  respond :: "socket_addr \<Rightarrow> 'b http_request \<Rightarrow> string + 'p http_response"

text \<open>What the handler does besides answering: the request it sends on, and whether it tunnels.\<close>

record 'b proxy_effects =
  forwarded :: "(socket_addr \<times> 'b http_request) option"
  tunnel :: bool

abbreviation no_proxy_effects :: "'b proxy_effects" where
  "no_proxy_effects \<equiv> \<lparr>forwarded = None, tunnel = False\<rparr>"

definition proxy_target :: "dns_rule \<Rightarrow> socket_addr" where
  "proxy_target rule =
     (if addr_ip (target rule) = V4 ipv4_unspecified
      then socket_addr_new (V4 ipv4_localhost) (addr_port (target rule))
      else if addr_ip (target rule) = V6 ipv6_unspecified
      then socket_addr_new (V6 ipv6_localhost) (addr_port (target rule))
      else target rule)"

definition proxy_headers :: "ip_addr \<Rightarrow> bool \<Rightarrow> 'b http_request \<Rightarrow> 'b http_request" where
  "proxy_headers client_ip is_tls req =
     req\<lparr>req_headers := add_proxy_headers client_ip is_tls (strip_hop_by_hop (req_headers req))\<rparr>"

definition service_handle_connection ::
    "('b, 'p) backend \<Rightarrow> inner_rule_store \<Rightarrow> 'b http_request \<Rightarrow> ip_addr \<Rightarrow> bool \<Rightarrow> ('ca, 'cert) domain_resolver \<Rightarrow>
     (string + 'p proxy_reply) \<times> 'b proxy_effects \<times> ('ca, 'cert) domain_resolver" where
  "service_handle_connection be s req client_ip is_tls res =
     (case extract_host (req_headers req) of
        None \<Rightarrow> (Inl ''Missing Host header'', no_proxy_effects, res)
      | Some host \<Rightarrow>
          (let (found, res') = resolve_domain s host res in
           case found of
             None \<Rightarrow> (Inr (BadGateway []), no_proxy_effects, res')
           | Some rule \<Rightarrow>
               if https rule \<and> \<not> is_tls
               then (Inr (MovedPermanently (''https://'' @ host @
                       (case path_and_query req of Some pq \<Rightarrow> pq | None \<Rightarrow> ''/''))), no_proxy_effects, res')
               else
                 (let tgt = proxy_target rule; req1 = proxy_headers client_ip is_tls req in
                  if \<not> accepts be tgt
                  then (Inr (BadGateway ''Target service is unreachable''), no_proxy_effects, res')
                  else
                    (case handshake be tgt of
                       Some e \<Rightarrow> (Inl e, no_proxy_effects, res')
                     | None \<Rightarrow>
                         (let client_upgrade = is_websocket (req_headers req1) in
                          case respond be tgt req1 of
                            Inl e \<Rightarrow> (Inl e, \<lparr>forwarded = Some (tgt, req1), tunnel = False\<rparr>, res')
                          | Inr resp \<Rightarrow>
                              (Inr (Backend resp),
                               \<lparr>forwarded = Some (tgt, req1), tunnel = (status resp = 101 \<and> client_upgrade)\<rparr>, res'))))))"

section \<open>Connections and listeners\<close>

text \<open>
  The connection task. A turn of its biased \<^verbatim>\<open>select!\<close> sees whether the token is cancelled and
  what polling the connection gives. The second arm matches an error only, so a connection that
  ends well switches that arm off and leaves the task waiting for the token.
\<close>

datatype conn_poll = ConnPending | ConnOk | ConnErr string

datatype conn_end = ConnShutdown | ConnFailed string | ConnWaiting

fun connection_task :: "bool \<Rightarrow> (bool \<times> conn_poll) list \<Rightarrow> conn_end" where
  "connection_task enabled [] = ConnWaiting"
| "connection_task enabled ((cancel, poll) # ts) =
     (if cancel then ConnShutdown
      else if \<not> enabled then connection_task False ts
      else case poll of
        ConnPending \<Rightarrow> connection_task True ts
      | ConnOk \<Rightarrow> connection_task False ts
      | ConnErr e \<Rightarrow> ConnFailed e)"

text \<open>
  An accept loop: an accepted connection is given to a task (with the flag whether it is TLS),
  an accept error is logged and the loop goes on; only the token ends it. On the HTTPS port the
  task first does the TLS handshake, and gives up the connection if that fails.
\<close>

record 'c proxy_turn =
  shutdown_requested :: bool
  incoming :: "(string + 'c) option"

fun proxy_accept :: "'c proxy_turn list \<Rightarrow> 'c list \<times> bool" where
  "proxy_accept [] = ([], False)"
| "proxy_accept (t # ts) =
     (if shutdown_requested t then ([], True)
      else case incoming t of
        None \<Rightarrow> proxy_accept ts
      | Some (Inl e) \<Rightarrow> proxy_accept ts
      | Some (Inr c) \<Rightarrow> map_prod ((#) c) id (proxy_accept ts))"

definition serve_http :: "(socket_addr \<Rightarrow> string + unit) \<Rightarrow> 'c proxy_turn list \<Rightarrow> string + ('c \<times> bool) list \<times> bool" where
  "serve_http bind turns =
     (case bind (set_port PROXY_LISTEN_ADDR 80) of
        Inl e \<Rightarrow> Inl e
      | Inr _ \<Rightarrow> (let (conns, stopped) = proxy_accept turns in Inr (map (\<lambda>c. (c, False)) conns, stopped)))"

definition serve_https ::
    "(socket_addr \<Rightarrow> string + unit) \<Rightarrow> ('c \<Rightarrow> 'c option) \<Rightarrow> 'c proxy_turn list \<Rightarrow> string + ('c \<times> bool) list \<times> bool" where
  "serve_https bind tls_accept turns =
     (case bind (set_port PROXY_LISTEN_ADDR 443) of
        Inl e \<Rightarrow> Inl e
      | Inr _ \<Rightarrow>
          (let (conns, stopped) = proxy_accept turns
           in Inr (map (\<lambda>c. (c, True)) (List.map_filter tls_accept conns), stopped)))"

text \<open>
  \<^verbatim>\<open>run_proxy_server\<close>: both listeners; HTTPS only if the root certificate is installed. Errors
  of a listener are only logged. The result is the connections each port hands to its tasks.
\<close>

definition run_proxy_server ::
    "bool \<Rightarrow> (socket_addr \<Rightarrow> string + unit) \<Rightarrow> ('c \<Rightarrow> 'c option) \<Rightarrow> 'c proxy_turn list \<Rightarrow> 'c proxy_turn list \<Rightarrow>
     ('c \<times> bool) list" where
  "run_proxy_server ca_installed bind tls_accept http_turns https_turns =
     (case serve_http bind http_turns of Inl _ \<Rightarrow> [] | Inr (conns, _) \<Rightarrow> conns) @
     (if \<not> ca_installed then []
      else case serve_https bind tls_accept https_turns of Inl _ \<Rightarrow> [] | Inr (conns, _) \<Rightarrow> conns)"

section \<open>Header laws\<close>

named_theorems header_simps \<open>the values of a name after a change of the headers\<close>

lemma get_all_remove [header_simps]:
  "hm_get_all m (hm_remove n hs) = (if m = n then [] else hm_get_all m hs)"
  by (induction hs) (auto simp: hm_get_all_def hm_remove_def)

lemma get_all_insert [header_simps]:
  "hm_get_all m (hm_insert n v hs) = (if m = n then [v] else hm_get_all m hs)"
proof -
  have "hm_get_all m (hm_insert n v hs) = hm_get_all m (hm_remove n hs) @ (if m = n then [v] else [])"
    by (simp add: hm_get_all_def hm_insert_def)
  then show ?thesis by (simp add: get_all_remove)
qed

lemma get_all_fold_remove [header_simps]:
  "hm_get_all m (fold hm_remove ns hs) = (if m \<in> set ns then [] else hm_get_all m hs)"
  by (induction ns arbitrary: hs) (auto simp: get_all_remove)

lemma get_of_all: "hm_get n hs = (case hm_get_all n hs of [] \<Rightarrow> None | v # _ \<Rightarrow> Some v)"
  by (induction hs) (auto simp: hm_get_def hm_get_all_def)

lemma is_websocket_cong:
  "hm_get_all ''upgrade'' hs = hm_get_all ''upgrade'' hs' \<Longrightarrow>
   hm_get_all ''connection'' hs = hm_get_all ''connection'' hs' \<Longrightarrow> is_websocket hs = is_websocket hs'"
  by (simp add: is_websocket_def get_of_all)

lemma no_connection_no_websocket: "hm_get_all ''connection'' hs = [] \<Longrightarrow> \<not> is_websocket hs"
  by (simp add: is_websocket_def get_of_all to_ascii_lowercase_def)

lemma get_all_strip [header_simps]:
  "hm_get_all m (strip_hop_by_hop hs) =
     (if m \<in> set HOP_BY_HOP_HEADERS \<or> m = ''connection'' \<and> \<not> is_websocket hs then [] else hm_get_all m hs)"
proof -
  have "is_websocket (fold hm_remove HOP_BY_HOP_HEADERS hs) = is_websocket hs"
    by (rule is_websocket_cong; simp add: header_simps HOP_BY_HOP_HEADERS_def)
  then show ?thesis by (simp add: strip_hop_by_hop_def Let_def header_simps)
qed

lemma addr_char_value: "addr_char c \<Longrightarrow> value_byte c"
  by (auto simp: addr_char_def value_byte_def)

lemma header_value_ip: "header_value (ip_to_string ip) = Some (ip_to_string ip)"
  using ip_to_string_chars [of ip] by (auto simp: header_value_def list_all_iff addr_char_value)

lemma header_value_proto:
  "header_value (if b then ''https'' else ''http'') = Some (if b then ''https'' else ''http'')"
  by (simp add: header_value_def value_byte_def)

lemma get_all_add [header_simps]:
  "hm_get_all m (add_proxy_headers ip tls hs) =
     (if m = ''x-real-ip'' \<or> m = ''x-forwarded-for'' then [ip_to_string ip]
      else if m = ''x-forwarded-proto'' then [if tls then ''https'' else ''http'']
      else hm_get_all m hs)"
  unfolding add_proxy_headers_def insert_value_def Let_def header_value_ip header_value_proto option.case
  by (simp add: get_all_insert)

lemma is_websocket_forwarded:
  "is_websocket (add_proxy_headers ip tls (strip_hop_by_hop hs)) = is_websocket hs"
proof -
  have "hm_get_all ''upgrade'' (add_proxy_headers ip tls (strip_hop_by_hop hs)) = hm_get_all ''upgrade'' hs"
    by (simp add: header_simps HOP_BY_HOP_HEADERS_def)
  moreover have "hm_get_all ''connection'' (add_proxy_headers ip tls (strip_hop_by_hop hs)) =
      (if is_websocket hs then hm_get_all ''connection'' hs else [])"
    by (simp add: header_simps HOP_BY_HOP_HEADERS_def)
  ultimately show ?thesis
    using is_websocket_cong [of "add_proxy_headers ip tls (strip_hop_by_hop hs)" hs]
      no_connection_no_websocket [of "add_proxy_headers ip tls (strip_hop_by_hop hs)"]
    by (cases "is_websocket hs") simp_all
qed

lemma visible_value: "visible c \<Longrightarrow> value_byte c"
  by (auto simp: visible_def value_byte_def)

lemma visible_lower: "visible c \<Longrightarrow> visible (lower_char c)"
  by (auto simp: visible_def lower_char_def ascii_upper_def)

lemma visible_ascii: "list_all visible s \<Longrightarrow> ascii s"
  by (auto simp: ascii_def list_all_iff visible_def)

text \<open>A host taken from a header is visible ASCII, whatever the client sent.\<close>

lemma extract_host_visible: "extract_host hs = Some host \<Longrightarrow> list_all visible host"
proof -
  assume "extract_host hs = Some host"
  then obtain v where v: "host = to_lowercase (split_next (CHR '':'') v)" "list_all visible v"
    by (auto simp: extract_host_def to_str_def bind_eq_Some_conv split: if_splits)
  then have "list_all visible (split_next (CHR '':'') v)"
    by (auto simp: split_next_def list_all_iff dest: set_takeWhileD)
  with v(1) show ?thesis
    by (simp add: to_lowercase_ascii visible_ascii to_ascii_lowercase_def list_all_iff visible_lower)
qed

lemma service_forwards:
  assumes "rules.coherent s [] res"
    and "extract_host (req_headers req) = Some host" "inner_resolve s host = Some rule" "\<not> https rule \<or> tls"
    and "accepts be (proxy_target rule)" "handshake be (proxy_target rule) = None"
    and "respond be (proxy_target rule) (proxy_headers ip tls req) = Inr resp"
  shows "fst (service_handle_connection be s req ip tls res) = Inr (Backend resp) \<and>
    fst (snd (service_handle_connection be s req ip tls res)) =
      \<lparr>forwarded = Some (proxy_target rule, proxy_headers ip tls req),
       tunnel = (status resp = 101 \<and> is_websocket (req_headers req))\<rparr>"
proof -
  have "fst (resolve_domain s host res) = Some rule"
    using assms(3) resolve_domain_coherent(1) [OF assms(1)] by simp
  moreover have "is_websocket (req_headers (proxy_headers ip tls req)) = is_websocket (req_headers req)"
    by (simp add: proxy_headers_def is_websocket_forwarded)
  ultimately show ?thesis
    using assms(2,4-7) by (auto simp: service_handle_connection_def split_beta Let_def)
qed

text \<open>A store with one plain and one HTTPS rule, a backend that answers everything, and two requests.\<close>

definition sample_store :: inner_rule_store where
  "sample_store = inner_add (local_rule ''sec.local'' 8443 True)
     (inner_add (dns_rule_new ''api.local'' (SocketAddrV4 ipv4_unspecified 3000) False) inner_new)"

definition sample_backend :: "(unit, string) backend" where
  "sample_backend = \<lparr>accepts = \<lambda>a. True, handshake = \<lambda>a. None,
     respond = \<lambda>a r. Inr \<lparr>status = 200, resp_rest = ''hello''\<rparr>\<rparr>"

definition sample_request :: "string \<Rightarrow> unit http_request" where
  "sample_request host = \<lparr>req_headers = [(''host'', host), (''x-forwarded-for'', ''6.6.6.6''), (''te'', ''trailers'')],
     path_and_query = Some ''/v1?x=1'', req_rest = ()\<rparr>"

abbreviation sample_resolver :: "(unit, unit) domain_resolver" where
  "sample_resolver \<equiv> domain_resolver_new None"

lemma sample_facts:
  "extract_host (req_headers (sample_request ''API.local:80'')) = Some ''api.local''"
  "extract_host (req_headers (sample_request ''sec.local'')) = Some ''sec.local''"
  "inner_resolve sample_store ''api.local'' = Some (dns_rule_new ''api.local'' (SocketAddrV4 ipv4_unspecified 3000) False)"
  "inner_resolve sample_store ''sec.local'' = Some (local_rule ''sec.local'' 8443 True)"
  by code_simp+

lemma sample_target:
  "proxy_target (dns_rule_new ''api.local'' (SocketAddrV4 ipv4_unspecified 3000) False) = SocketAddrV4 ipv4_localhost 3000"
  by (simp add: proxy_target_def)

section \<open>Properties\<close>


text \<open>
  C22. A request whose Host (without port, in lower case) has a rule that does not ask for a
  redirect goes to the rule's target, with unspecified addresses replaced by the loopback
  address, and the client gets the backend's response; the connection becomes a tunnel exactly
  if the client asked for a WebSocket and the backend switched protocols.
\<close>

theorem request_forwarded:
  assumes "\<forall>k r. map_of (cache res) k = Some r \<longrightarrow> inner_resolve s k = Some r"
    and "extract_host (req_headers req) = Some host" "inner_resolve s host = Some rule" "\<not> https rule \<or> tls"
    and "accepts be (proxy_target rule)" "handshake be (proxy_target rule) = None"
    and "respond be (proxy_target rule) (proxy_headers ip tls req) = Inr resp"
  shows "fst (service_handle_connection be s req ip tls res) = Inr (Backend resp) \<and>
    fst (snd (service_handle_connection be s req ip tls res)) =
      \<lparr>forwarded = Some (proxy_target rule, proxy_headers ip tls req),
       tunnel = (status resp = 101 \<and> is_websocket (req_headers req))\<rparr>"
  using service_forwards [OF _ assms(2-7)] assms(1) by (simp add: rules.coherent_def)

theorem request_forwarded_witness:
  "fst (service_handle_connection sample_backend sample_store (sample_request ''API.local:80'') (V4 ipv4_localhost) False
      sample_resolver) = Inr (Backend \<lparr>status = 200, resp_rest = ''hello''\<rparr>) \<and>
   forwarded (fst (snd (service_handle_connection sample_backend sample_store (sample_request ''API.local:80'')
      (V4 ipv4_localhost) False sample_resolver))) =
     Some (SocketAddrV4 ipv4_localhost 3000, proxy_headers (V4 ipv4_localhost) False (sample_request ''API.local:80''))"
  using request_forwarded [of sample_resolver sample_store "sample_request ''API.local:80''", OF _ sample_facts(1,3),
      of False sample_backend "V4 ipv4_localhost" "\<lparr>status = 200, resp_rest = ''hello''\<rparr>"]
  by (simp add: sample_target domain_resolver_new_def sample_backend_def)



lemma service_redirects:
  assumes "rules.coherent s [] res"
    and "extract_host (req_headers req) = Some host" "inner_resolve s host = Some rule" "https rule"
    and "path_and_query req = Some pq" "list_all value_byte pq"
  shows "fst (service_handle_connection be s req ip False res) = Inr (MovedPermanently (''https://'' @ host @ pq)) \<and>
    fst (snd (service_handle_connection be s req ip False res)) = no_proxy_effects \<and>
    header_value (''https://'' @ host @ pq) = Some (''https://'' @ host @ pq)"
proof -
  have "fst (resolve_domain s host res) = Some rule"
    using assms(3) resolve_domain_coherent(1) [OF assms(1)] by simp
  moreover have "list_all value_byte host"
    using extract_host_visible [OF assms(2)] by (auto simp: list_all_iff visible_value)
  moreover have "list_all value_byte ''https://''" by (simp add: value_byte_def)
  ultimately show ?thesis
    using assms(2,4-6)
    by (simp add: service_handle_connection_def split_beta Let_def header_value_def)
qed

text \<open>
  A plain HTTP request for a rule with HTTPS is redirected: status 301 to the same host and
  path over https, nothing is sent to the backend, and the Location is always a valid header
  value if the path is (building the response cannot panic on the Host).
\<close>

theorem https_redirect:
  assumes "\<forall>k r. map_of (cache res) k = Some r \<longrightarrow> inner_resolve s k = Some r"
    and "extract_host (req_headers req) = Some host" "inner_resolve s host = Some rule" "https rule"
    and "path_and_query req = Some pq" "list_all value_byte pq"
  shows "fst (service_handle_connection be s req ip False res) = Inr (MovedPermanently (''https://'' @ host @ pq)) \<and>
    fst (snd (service_handle_connection be s req ip False res)) = no_proxy_effects \<and>
    header_value (''https://'' @ host @ pq) = Some (''https://'' @ host @ pq)"
  using service_redirects [of s res req host rule pq be ip] assms by (simp add: rules.coherent_def)

theorem https_redirect_witness:
  "fst (service_handle_connection sample_backend sample_store (sample_request ''sec.local'') (V4 ipv4_localhost) False
      sample_resolver) = Inr (MovedPermanently ''https://sec.local/v1?x=1'')"
proof -
  have "list_all value_byte ''/v1?x=1''" by (simp add: value_byte_def)
  with https_redirect [of sample_resolver sample_store "sample_request ''sec.local''", OF _ sample_facts(2,4),
      of "''/v1?x=1''" sample_backend "V4 ipv4_localhost"] show ?thesis
    by (simp add: domain_resolver_new_def sample_request_def)
qed

text \<open>
  A request that cannot be routed reaches no backend: without a usable Host it is an error,
  without a rule it is answered with an empty 502, and if the target does not accept the
  connection with a 502 that says so.
\<close>

theorem unroutable_request:
  assumes "\<forall>k r. map_of (cache res) k = Some r \<longrightarrow> inner_resolve s k = Some r"
  shows "case extract_host (req_headers req) of
      None \<Rightarrow> service_handle_connection be s req ip tls res = (Inl ''Missing Host header'', no_proxy_effects, res)
    | Some host \<Rightarrow>
        (case inner_resolve s host of
           None \<Rightarrow> fst (service_handle_connection be s req ip tls res) = Inr (BadGateway []) \<and>
             fst (snd (service_handle_connection be s req ip tls res)) = no_proxy_effects
         | Some rule \<Rightarrow>
             accepts be (proxy_target rule) \<or> https rule \<and> \<not> tls \<or>
             fst (service_handle_connection be s req ip tls res) = Inr (BadGateway ''Target service is unreachable'') \<and>
             fst (snd (service_handle_connection be s req ip tls res)) = no_proxy_effects)"
proof (cases "extract_host (req_headers req)")
  case None
  then show ?thesis by (simp add: service_handle_connection_def)
next
  case (Some host)
  have r: "fst (resolve_domain s host res) = inner_resolve s host"
    using assms(1) resolve_domain_coherent(1) [of s res host] by (simp add: rules.coherent_def)
  show ?thesis
    by (cases "inner_resolve s host") (use Some r in \<open>auto simp: service_handle_connection_def split_beta Let_def\<close>)
qed

theorem unroutable_request_witness:
  "fst (service_handle_connection sample_backend inner_new (sample_request ''API.local:80'') (V4 ipv4_localhost) False
      sample_resolver) = Inr (BadGateway [])"
proof -
  have "inner_resolve inner_new ''api.local'' = None" by code_simp
  with unroutable_request [of sample_resolver inner_new sample_backend "sample_request ''API.local:80''" "V4 ipv4_localhost" False]
    sample_facts(1) show ?thesis
    by (simp add: domain_resolver_new_def)
qed

text \<open>
  A connection that the client ends in order keeps its task until the daemon stops: once the
  connection is done without error the task waits for the token alone.
\<close>

theorem finished_connection_lingers:
  "connection_task True ((False, ConnOk) # map (\<lambda>p. (False, p)) polls) = ConnWaiting \<and>
   connection_task True ((False, ConnOk) # map (\<lambda>p. (False, p)) polls @ [(True, ConnPending)]) = ConnShutdown"
proof -
  have "connection_task False (map (\<lambda>p. (False, p)) polls) = ConnWaiting"
    "connection_task False (map (\<lambda>p. (False, p)) polls @ [(True, ConnPending)]) = ConnShutdown"
    by (induction polls) simp_all
  then show ?thesis by simp
qed

end
