(* ===== verification/SysDns.thy ===== *)
theory SysDns
  imports Ipc Net
begin

text \<open>
  The system's DNS configuration (core/src/dns/sys): the drop-in file of systemd-resolved, the
  resolver files of macOS, the name resolution policy table of Windows, the fallback that does
  nothing, and the task that keeps the configuration in step with the rules.

  The contract of the trait \<^verbatim>\<open>SystemDnsManager\<close> is the locale \<open>system_dns_manager\<close>, in which
  the task is proved correct once; systemd, macOS and the fallback are its interpretations. The
  operating system decides which operations succeed: these are the fields of \<open>os\<close>. The Windows
  implementation only runs PowerShell scripts, which are a parameter.
\<close>

section \<open>The operating system\<close>

text \<open>Which operations on files succeed, and whether reloading the resolver does.\<close>

record os =
  can_create_dir :: bool
  can_write :: "string \<Rightarrow> bool"
  can_read :: "string \<Rightarrow> bool"
  can_remove :: "string \<Rightarrow> bool"
  can_reload :: bool

type_synonym 'w outcome = "(string + unit) \<times> 'w"

text \<open>A long dash in UTF-8, and the first line of the files SideDNS writes.\<close>

definition em_dash :: string where
  "em_dash = [char_of (226 :: nat), char_of (128 :: nat), char_of (148 :: nat)]"

definition COMMENT :: string where
  "COMMENT = ''Managed by SideDNS '' @ em_dash @ '' do not edit manually''"

abbreviation nl :: string where
  "nl \<equiv> [CHR 0x0A]"

section \<open>systemd-resolved\<close>

definition DROP_IN_DIR :: string where
  "DROP_IN_DIR = ''/etc/systemd/resolved.conf.d''"

definition drop_in_path :: string where
  "drop_in_path = DROP_IN_DIR @ ''/sidedns.conf''"

definition systemd_route :: "string \<Rightarrow> string" where
  "systemd_route d =
     (if starts_with d ''*.'' then ''~'' @ (case strip_prefix ''*.'' d of Some suf \<Rightarrow> suf | None \<Rightarrow> d)
      else ''~'' @ d @ ''.'')"

fun join :: "string \<Rightarrow> string list \<Rightarrow> string" where
  "join sep [] = []"
| "join sep [x] = x"
| "join sep (x # y # xs) = x @ sep @ join sep (y # xs)"

definition systemd_content :: "string list \<Rightarrow> string" where
  "systemd_content ds =
     ''# '' @ COMMENT @ nl @ ''[Resolve]'' @ nl @ ''DNS='' @ ip_to_string (addr_ip DNS_LISTEN_ADDR) @ nl @
     ''Domains='' @ join '' '' (map systemd_route ds) @ nl"

text \<open>The files of the system by path.\<close>

type_synonym files = "string \<Rightarrow> string option"

definition systemd_available :: "files \<Rightarrow> bool" where
  "systemd_available fs =
     (fs ''/run/systemd/resolve/resolv.conf'' \<noteq> None \<or> fs ''/etc/systemd/resolved.conf'' \<noteq> None)"

definition systemd_reload :: "os \<Rightarrow> 'w \<Rightarrow> 'w outcome" where
  "systemd_reload h w = (if can_reload h then Inr () else Inl ''Failed to reload systemd-resolved'', w)"

definition systemd_apply :: "os \<Rightarrow> string list \<Rightarrow> files \<Rightarrow> files outcome" where
  "systemd_apply h ds fs =
     (if \<not> can_create_dir h then (Inl ''create_dir_all'', fs)
      else if \<not> can_write h drop_in_path then (Inl ''write'', fs)
      else systemd_reload h (fs(drop_in_path \<mapsto> systemd_content ds)))"

definition systemd_revert :: "os \<Rightarrow> files \<Rightarrow> files outcome" where
  "systemd_revert h fs =
     (if fs drop_in_path \<noteq> None
      then if can_remove h drop_in_path then systemd_reload h (fs(drop_in_path := None))
           else (Inl ''remove_file'', fs)
      else systemd_reload h fs)"

section \<open>macOS\<close>

text \<open>The directory of resolver files: file names and contents, in the order it is listed.\<close>

type_synonym resolver_dir = "string table"

definition resolver_content :: string where
  "resolver_content = ''# '' @ COMMENT @ nl @ ''nameserver '' @ ip_to_string (addr_ip DNS_LISTEN_ADDR) @ nl"

definition is_sidedns_file :: "os \<Rightarrow> string \<Rightarrow> resolver_dir \<Rightarrow> bool" where
  "is_sidedns_file h n dir =
     (case map_of dir n of Some c \<Rightarrow> can_read h n \<and> contains c ''Managed by SideDNS'' | None \<Rightarrow> False)"

fun remove_all_files :: "os \<Rightarrow> string list \<Rightarrow> resolver_dir \<Rightarrow> resolver_dir outcome" where
  "remove_all_files h [] dir = (Inr (), dir)"
| "remove_all_files h (n # ns) dir =
     (if is_sidedns_file h n dir
      then if can_remove h n then remove_all_files h ns (AList.delete n dir) else (Inl ''remove_file'', dir)
      else remove_all_files h ns dir)"

definition resolver_name :: "string \<Rightarrow> string" where
  "resolver_name d = replace_star_dot [] d"

fun write_files :: "os \<Rightarrow> string list \<Rightarrow> resolver_dir \<Rightarrow> resolver_dir outcome" where
  "write_files h [] dir = (Inr (), dir)"
| "write_files h (d # ds) dir =
     (if can_write h (resolver_name d)
      then write_files h ds (AList.update (resolver_name d) resolver_content dir)
      else (Inl ''write'', dir))"

definition macos_apply :: "os \<Rightarrow> string list \<Rightarrow> resolver_dir \<Rightarrow> resolver_dir outcome" where
  "macos_apply h ds dir =
     (if \<not> can_create_dir h then (Inl ''create_dir_all'', dir)
      else case remove_all_files h (map fst dir) dir of
             (Inl e, dir') \<Rightarrow> (Inl e, dir')
           | (Inr _, dir') \<Rightarrow> write_files h ds dir')"

definition macos_revert :: "os \<Rightarrow> resolver_dir \<Rightarrow> resolver_dir outcome" where
  "macos_revert h dir = remove_all_files h (map fst dir) dir"

section \<open>Windows\<close>

definition nrpt_namespace :: "string \<Rightarrow> string" where
  "nrpt_namespace d =
     (if starts_with d ''*.'' then ''.'' @ (case strip_prefix ''*.'' d of Some suf \<Rightarrow> suf | None \<Rightarrow> d) else d)"

abbreviation quoted :: "string \<Rightarrow> string" where
  "quoted s \<equiv> CHR 0x27 # s @ [CHR 0x27]"

definition nrpt_remove_script :: string where
  "nrpt_remove_script = ''Get-DnsClientNrptRule | Where-Object { $_.Comment -eq '' @ quoted COMMENT @
     '' } | Remove-DnsClientNrptRule -Force''"

definition nrpt_add_script :: "string \<Rightarrow> string" where
  "nrpt_add_script ns = ''Add-DnsClientNrptRule -Namespace '' @ quoted ns @ '' -NameServers '' @
     quoted (ip_to_string (addr_ip DNS_LISTEN_ADDR)) @ '' -Comment '' @ quoted COMMENT"

text \<open>Running a script: it succeeds or not, and leaves a new world.\<close>

type_synonym 'w powershell = "string \<Rightarrow> 'w \<Rightarrow> bool \<times> 'w"

definition powershell :: "'w powershell \<Rightarrow> string \<Rightarrow> 'w \<Rightarrow> 'w outcome" where
  "powershell ps script w =
     (let (ok, w') = ps script w in (if ok then Inr () else Inl (''PowerShell command failed: '' @ script), w'))"

fun run_scripts :: "'w powershell \<Rightarrow> string list \<Rightarrow> 'w \<Rightarrow> 'w outcome" where
  "run_scripts ps [] w = (Inr (), w)"
| "run_scripts ps (s # ss) w =
     (case powershell ps s w of (Inl e, w') \<Rightarrow> (Inl e, w') | (Inr _, w') \<Rightarrow> run_scripts ps ss w')"

definition windows_apply :: "'w powershell \<Rightarrow> string list \<Rightarrow> 'w \<Rightarrow> 'w outcome" where
  "windows_apply ps ds w =
     (case powershell ps nrpt_remove_script w of
        (Inl e, w') \<Rightarrow> (Inl e, w')
      | (Inr _, w') \<Rightarrow> run_scripts ps (map (\<lambda>d. nrpt_add_script (nrpt_namespace d)) ds) w')"

definition windows_revert :: "'w powershell \<Rightarrow> 'w \<Rightarrow> 'w outcome" where
  "windows_revert ps w = powershell ps nrpt_remove_script w"

section \<open>The fallback and the choice\<close>

definition noop_apply :: "string list \<Rightarrow> 'w \<Rightarrow> 'w outcome" where
  "noop_apply ds w = (Inr (), w)"

definition noop_revert :: "'w \<Rightarrow> 'w outcome" where
  "noop_revert w = (Inr (), w)"

text \<open>On Linux the choice between the drop-in file and the fallback.\<close>

definition linux_apply :: "os \<Rightarrow> bool \<Rightarrow> string list \<Rightarrow> files \<Rightarrow> files outcome" where
  "linux_apply h available = (if available then systemd_apply h else noop_apply)"

definition linux_revert :: "os \<Rightarrow> bool \<Rightarrow> files \<Rightarrow> files outcome" where
  "linux_revert h available = (if available then systemd_revert h else noop_revert)"

section \<open>The task\<close>

text \<open>
  One turn of the task's biased \<^verbatim>\<open>select!\<close>: whether the token is cancelled, what the event
  receiver gives, and the domains of all rules at that moment.
\<close>

record mgr_turn =
  mgr_cancelled :: bool
  mgr_recv :: "recv_result option"
  mgr_domains :: "string list"

datatype mgr_end = MgrDone | MgrError string | MgrWaiting

fun rule_event :: "dns_event \<Rightarrow> bool" where
  "rule_event DaemonStopped = False"
| "rule_event e = True"

fun manager_loop :: "(string list \<Rightarrow> 'w \<Rightarrow> 'w outcome) \<Rightarrow> mgr_turn list \<Rightarrow> 'w \<Rightarrow> mgr_end \<times> 'w" where
  "manager_loop ap [] w = (MgrWaiting, w)"
| "manager_loop ap (t # ts) w =
     (if mgr_cancelled t then (MgrDone, w)
      else case mgr_recv t of
        None \<Rightarrow> manager_loop ap ts w
      | Some (Received e) \<Rightarrow>
          if rule_event e
          then (case ap (mgr_domains t) w of (Inl err, w') \<Rightarrow> (MgrError err, w') | (Inr _, w') \<Rightarrow> manager_loop ap ts w')
          else manager_loop ap ts w
      | Some (Lagged n) \<Rightarrow> manager_loop ap ts w
      | Some Closed \<Rightarrow> (MgrDone, w))"

definition run_system_dns_manager ::
    "(string list \<Rightarrow> 'w \<Rightarrow> 'w outcome) \<Rightarrow> ('w \<Rightarrow> 'w outcome) \<Rightarrow> string list \<Rightarrow> mgr_turn list \<Rightarrow> 'w \<Rightarrow> mgr_end \<times> 'w" where
  "run_system_dns_manager ap rv ds ts w =
     (case ap ds (snd (rv w)) of
        (Inl e, w') \<Rightarrow> (MgrError e, w')
      | (Inr _, w') \<Rightarrow>
          (case manager_loop ap ts w' of
             (MgrDone, w'') \<Rightarrow> (MgrDone, snd (rv w''))
           | other \<Rightarrow> other))"

text \<open>The domains last written: those of the last rule event, or those before.\<close>

fun last_applied :: "mgr_turn list \<Rightarrow> string list \<Rightarrow> string list" where
  "last_applied [] ds = ds"
| "last_applied (t # ts) ds =
     (if mgr_cancelled t \<or> mgr_recv t = Some Closed then ds
      else case mgr_recv t of
        Some (Received e) \<Rightarrow> last_applied ts (if rule_event e then mgr_domains t else ds)
      | _ \<Rightarrow> last_applied ts ds)"

section \<open>The contract of a manager\<close>

text \<open>
  What a manager keeps apart: its own configuration and the rest of the world. Applying makes
  the configuration that of the domains, reverting empties it, both can be repeated, and neither
  touches the rest, as long as the domains are safe to write in this world. Being safe depends
  on the rest of the world only.
\<close>

locale system_dns_manager =
  fixes ap :: "string list \<Rightarrow> 'w \<Rightarrow> 'w outcome"
    and rv :: "'w \<Rightarrow> 'w outcome"
    and config :: "'w \<Rightarrow> 'c" and image :: "string list \<Rightarrow> 'c" and none :: 'c
    and rest :: "'w \<Rightarrow> 'r" and safe :: "string list \<Rightarrow> 'r \<Rightarrow> bool"
    and wf :: "'w \<Rightarrow> bool"
  assumes apply_config: "wf w \<Longrightarrow> safe ds (rest w) \<Longrightarrow> ap ds w = (Inr u, w') \<Longrightarrow> config w' = image ds"
    and apply_rest: "wf w \<Longrightarrow> safe ds (rest w) \<Longrightarrow> rest (snd (ap ds w)) = rest w"
    and apply_wf: "wf w \<Longrightarrow> wf (snd (ap ds w))"
    and apply_again: "wf w \<Longrightarrow> safe ds (rest w) \<Longrightarrow> ap ds w = (Inr u, w') \<Longrightarrow> fst (ap ds w') = Inr ()"
    and revert_config: "wf w \<Longrightarrow> rv w = (Inr u, w') \<Longrightarrow> config w' = none"
    and revert_rest: "wf w \<Longrightarrow> rest (snd (rv w)) = rest w"
    and revert_wf: "wf w \<Longrightarrow> wf (snd (rv w))"
    and revert_again: "wf w \<Longrightarrow> rv w = (Inr u, w') \<Longrightarrow> fst (rv w') = Inr ()"
begin

lemma loop_correct:
  assumes "wf w" "\<forall>t\<in>set ts. safe (mgr_domains t) (rest w)" "config w = image ds"
  shows "rest (snd (manager_loop ap ts w)) = rest w \<and> wf (snd (manager_loop ap ts w)) \<and>
    ((\<forall>e. fst (manager_loop ap ts w) \<noteq> MgrError e) \<longrightarrow>
       config (snd (manager_loop ap ts w)) = image (last_applied ts ds))"
  using assms
proof (induction ts arbitrary: w ds)
  case (Cons t ts)
  show ?case
  proof (cases "mgr_recv t")
    case (Some r)
    show ?thesis
    proof (cases r)
      case (Received e)
      show ?thesis
      proof (cases "rule_event e \<and> \<not> mgr_cancelled t")
        case True
        obtain x w' where a: "ap (mgr_domains t) w = (x, w')" by fastforce
        with Cons.prems apply_rest [of w "mgr_domains t"] apply_wf [of w "mgr_domains t"]
        have w': "rest w' = rest w" "wf w'" by simp_all
        show ?thesis
        proof (cases x)
          case Inl
          with a w' True Some Received show ?thesis by simp
        next
          case (Inr u)
          with a Cons.prems have "config w' = image (mgr_domains t)" by (auto dest: apply_config)
          with Cons.IH [of w' "mgr_domains t"] a Inr w' True Some Received Cons.prems(2) show ?thesis by simp
        qed
      qed (use Cons Some Received in auto)
    qed (use Cons Some in auto)
  qed (use Cons in auto)
qed simp

lemma run_reverts:
  assumes "wf w" "safe ds (rest w)" "\<forall>t\<in>set ts. safe (mgr_domains t) (rest w)"
    and "run_system_dns_manager ap rv ds ts w = (MgrDone, w')"
    and "\<And>v. wf v \<Longrightarrow> \<exists>v'. rv v = (Inr (), v')"
  shows "config w' = none \<and> rest w' = rest w"
proof -
  let ?w1 = "snd (rv w)"
  have 1: "wf ?w1" "rest ?w1 = rest w" using assms(1) by (simp_all add: revert_wf revert_rest)
  from assms(4) obtain u w2 where 2: "ap ds ?w1 = (Inr u, w2)"
    by (auto simp: run_system_dns_manager_def split: prod.splits sum.splits)
  with 1 assms(2) apply_config [of ?w1 ds u w2] apply_rest [of ?w1 ds] apply_wf [of ?w1 ds]
  have c2: "config w2 = image ds" "rest w2 = rest w" "wf w2" by simp_all
  from assms(4) 2 obtain w3 where 3: "manager_loop ap ts w2 = (MgrDone, w3)" "w' = snd (rv w3)"
    by (auto simp: run_system_dns_manager_def split: prod.splits mgr_end.splits)
  with loop_correct [of w2 ts ds] c2 assms(3) have "rest w3 = rest w" "wf w3" by simp_all
  with 3 assms(5) [of w3] show ?thesis using revert_rest [of w3] by (auto dest: revert_config)
qed

lemma run_in_step:
  assumes "wf w" "safe ds (rest w)" "\<forall>t\<in>set ts. safe (mgr_domains t) (rest w)"
    and "run_system_dns_manager ap rv ds ts w = (MgrWaiting, w')"
  shows "config w' = image (last_applied ts ds) \<and> rest w' = rest w"
proof -
  let ?w1 = "snd (rv w)"
  have 1: "wf ?w1" "rest ?w1 = rest w" using assms(1) by (simp_all add: revert_wf revert_rest)
  from assms(4) obtain u w2 where 2: "ap ds ?w1 = (Inr u, w2)"
    by (auto simp: run_system_dns_manager_def split: prod.splits sum.splits)
  with 1 assms(2) apply_config [of ?w1 ds u w2] apply_rest [of ?w1 ds] apply_wf [of ?w1 ds]
  have c2: "config w2 = image ds" "rest w2 = rest w" "wf w2" by simp_all
  from assms(4) 2 have "manager_loop ap ts w2 = (MgrWaiting, w')"
    by (auto simp: run_system_dns_manager_def split: prod.splits mgr_end.splits)
  with loop_correct [of w2 ts ds] c2 assms(3) show ?thesis by simp
qed

end

section \<open>The managers keep the contract\<close>

subsection \<open>systemd-resolved\<close>

interpretation systemd: system_dns_manager "systemd_apply h" "systemd_revert h"
    "\<lambda>fs. fs drop_in_path" "\<lambda>ds. Some (systemd_content ds)" None "\<lambda>fs. fs(drop_in_path := None)"
    "\<lambda>ds r. True" "\<lambda>fs. True" for h
  by unfold_locales (auto simp: systemd_apply_def systemd_revert_def systemd_reload_def split: if_splits)

subsection \<open>macOS\<close>

text \<open>
  The files SideDNS wrote are those with its mark, and the rest are the user's. Writing is safe
  where the user has no file of that name.
\<close>

definition marked :: "string \<Rightarrow> bool" where
  "marked c = contains c ''Managed by SideDNS''"

definition macos_config :: "resolver_dir \<Rightarrow> (string \<times> string) set" where
  "macos_config dir = {(n, c). map_of dir n = Some c \<and> marked c}"

definition macos_rest :: "resolver_dir \<Rightarrow> string \<Rightarrow> string option" where
  "macos_rest dir n = (case map_of dir n of Some c \<Rightarrow> if marked c then None else Some c | None \<Rightarrow> None)"

definition macos_image :: "string list \<Rightarrow> (string \<times> string) set" where
  "macos_image ds = (\<lambda>d. (resolver_name d, resolver_content)) ` set ds"

definition macos_safe :: "string list \<Rightarrow> (string \<Rightarrow> string option) \<Rightarrow> bool" where
  "macos_safe ds user = list_all (\<lambda>d. user (resolver_name d) = None) ds"

text \<open>The daemon runs as root: it reads every file, and removes what it can write.\<close>

abbreviation as_root :: "os \<Rightarrow> os" where
  "as_root h \<equiv> h\<lparr>can_read := \<lambda>n. True, can_remove := can_write h\<rparr>"

lemma marked_content: "marked resolver_content"
  unfolding marked_def contains_iff resolver_content_def COMMENT_def
  by (intro exI [of _ "''# ''"] exI [of _ "'' '' @ em_dash @ '' do not edit manually'' @ nl @ ''nameserver '' @
    ip_to_string (addr_ip DNS_LISTEN_ADDR) @ nl"]) simp

lemma is_sidedns_root: "is_sidedns_file (as_root h) n dir \<longleftrightarrow> (\<exists>c. map_of dir n = Some c \<and> marked c)"
  by (simp add: is_sidedns_file_def marked_def split: option.split)

lemma remove_all_get:
  "map_of (snd (remove_all_files (as_root h) ns dir)) n = map_of dir n \<or>
   map_of (snd (remove_all_files (as_root h) ns dir)) n = None \<and> (\<exists>c. map_of dir n = Some c \<and> marked c)"
proof (induction ns arbitrary: dir)
  case (Cons m ns)
  show ?case
  proof (cases "is_sidedns_file (as_root h) m dir \<and> can_write h m")
    case True
    then obtain c where "map_of dir m = Some c" "marked c" by (auto simp: is_sidedns_root)
    with Cons [of "AList.delete m dir"] True show ?thesis
      by (cases "n = m") (auto simp: table_simps)
  next
    case False
    with Cons [of dir] show ?thesis by auto
  qed
qed simp

lemma remove_all_ok:
  "fst (remove_all_files (as_root h) ns dir) = Inr u \<Longrightarrow> n \<in> set ns \<Longrightarrow>
   map_of (snd (remove_all_files (as_root h) ns dir)) n = Some c \<Longrightarrow> \<not> marked c"
proof (induction ns arbitrary: dir)
  case (Cons m ns)
  show ?case
  proof (cases "n \<in> set ns")
    case True
    with Cons show ?thesis by (auto split: if_splits)
  next
    case False
    with Cons.prems(2) have nm: "n = m" by simp
    show ?thesis
    proof (cases "is_sidedns_file (as_root h) m dir")
      case True
      with Cons.prems nm show ?thesis
        using remove_all_get [of h ns "AList.delete m dir" n] by (auto simp: table_simps split: if_splits)
    next
      case False
      with Cons.prems(3) nm have "map_of (snd (remove_all_files (as_root h) ns dir)) m = Some c" by simp
      with remove_all_get [of h ns dir m] have "map_of dir m = Some c" by auto
      with False show ?thesis unfolding is_sidedns_root by blast
    qed
  qed
qed simp

lemma remove_all_rest: "macos_rest (snd (remove_all_files (as_root h) ns dir)) = macos_rest dir"
proof
  fix n
  show "macos_rest (snd (remove_all_files (as_root h) ns dir)) n = macos_rest dir n"
    using remove_all_get [of h ns dir n] by (auto simp: macos_rest_def)
qed

lemma remove_all_config:
  assumes "fst (remove_all_files (as_root h) (map fst dir) dir) = Inr u"
  shows "macos_config (snd (remove_all_files (as_root h) (map fst dir) dir)) = {}"
proof -
  have "\<not> marked c" if "map_of (snd (remove_all_files (as_root h) (map fst dir) dir)) n = Some c" for n c
  proof -
    from that remove_all_get [of h "map fst dir" dir n] have "map_of dir n = Some c" by auto
    then have "n \<in> set (map fst dir)" by (force dest: map_of_SomeD)
    then show ?thesis by (rule remove_all_ok [OF assms _ that])
  qed
  then show ?thesis by (auto simp: macos_config_def)
qed

lemma write_files_rest:
  "macos_safe ds (macos_rest dir) \<Longrightarrow> macos_rest (snd (write_files h ds dir)) = macos_rest dir"
proof (induction ds arbitrary: dir)
  case (Cons d ds)
  let ?dir = "AList.update (resolver_name d) resolver_content dir"
  have r: "macos_rest ?dir = macos_rest dir"
    using Cons.prems by (auto simp: fun_eq_iff macos_rest_def macos_safe_def table_simps marked_content)
  with Cons.IH [of ?dir] Cons.prems show ?case by (simp add: macos_safe_def)
qed simp

lemma write_files_get:
  "fst (write_files h ds dir) = Inr u \<Longrightarrow>
   map_of (snd (write_files h ds dir)) n =
     (if n \<in> resolver_name ` set ds then Some resolver_content else map_of dir n)"
  by (induction ds arbitrary: dir) (auto simp: table_simps split: if_splits)

lemma write_files_again:
  "fst (write_files h ds dir) = Inr u \<Longrightarrow> list_all (\<lambda>d. can_write h (resolver_name d)) ds"
  by (induction ds arbitrary: dir) (auto split: if_splits)

lemma write_files_possible:
  "list_all (\<lambda>d. can_write h (resolver_name d)) ds \<Longrightarrow> fst (write_files h ds dir) = Inr ()"
  by (induction ds arbitrary: dir) auto

lemma remove_all_possible:
  assumes "\<forall>n c. map_of dir n = Some c \<and> marked c \<longrightarrow> can_write h n"
  shows "fst (remove_all_files (as_root h) ns dir) = Inr ()"
  using assms
proof (induction ns arbitrary: dir)
  case (Cons m ns)
  have "\<forall>n c. map_of (AList.delete m dir) n = Some c \<and> marked c \<longrightarrow> can_write h n"
    using Cons.prems by (simp add: table_simps)
  with Cons show ?case by (auto simp: is_sidedns_root)
qed simp

lemma macos_apply_ok:
  assumes "macos_apply (as_root h) ds dir = (Inr u, dir')" "macos_safe ds (macos_rest dir)"
  shows "macos_config dir' = macos_image ds" "fst (macos_apply (as_root h) ds dir') = Inr ()"
proof -
  let ?rm = "remove_all_files (as_root h) (map fst dir) dir"
  from assms(1) have rm: "fst ?rm = Inr ()" and wr: "write_files (as_root h) ds (snd ?rm) = (Inr u, dir')"
    and cd: "can_create_dir h"
    by (auto simp: macos_apply_def split: if_splits prod.splits sum.splits)
  have get: "map_of dir' n = (if n \<in> resolver_name ` set ds then Some resolver_content else map_of (snd ?rm) n)" for n
    using write_files_get [of "as_root h" ds "snd ?rm" u n] wr by simp
  moreover have "\<not> marked c" if "map_of (snd ?rm) n = Some c" for n c
    using remove_all_config [OF rm] that by (auto simp: macos_config_def)
  ultimately show config: "macos_config dir' = macos_image ds"
    by (auto simp: macos_config_def macos_image_def marked_content split: if_splits)
  have wok: "list_all (\<lambda>d. can_write (as_root h) (resolver_name d)) ds"
    using write_files_again [of "as_root h" ds "snd ?rm" u] wr by simp
  have "can_write h n" if "(n, c) \<in> macos_config dir'" for n c
    using that wok unfolding config by (auto simp: macos_image_def list_all_iff)
  then have "\<forall>n c. map_of dir' n = Some c \<and> marked c \<longrightarrow> can_write h n"
    by (auto simp: macos_config_def)
  then have "fst (remove_all_files (as_root h) (map fst dir') dir') = Inr ()" by (rule remove_all_possible)
  with cd write_files_possible [OF wok] show "fst (macos_apply (as_root h) ds dir') = Inr ()"
    by (auto simp: macos_apply_def split: prod.splits)
qed

lemma macos_apply_rest:
  assumes "macos_safe ds (macos_rest dir)"
  shows "macos_rest (snd (macos_apply (as_root h) ds dir)) = macos_rest dir"
proof -
  have "macos_safe ds (macos_rest (snd (remove_all_files (as_root h) (map fst dir) dir)))"
    using assms by (simp add: remove_all_rest)
  from write_files_rest [OF this, of "as_root h"] show ?thesis
    using remove_all_rest [of h "map fst dir" dir]
    by (auto simp: macos_apply_def split: prod.splits sum.splits)
qed

interpretation macos: system_dns_manager "macos_apply (as_root h)" "macos_revert (as_root h)"
    macos_config macos_image "{}" macos_rest macos_safe "\<lambda>dir. True" for h
proof (unfold_locales, goal_cases)
  case (1 w ds u w')
  then show ?case by (simp add: macos_apply_ok)
next
  case (2 w ds)
  then show ?case by (simp add: macos_apply_rest)
next
  case (4 w ds u w')
  then show ?case by (simp add: macos_apply_ok)
next
  case (5 w u w')
  then show ?case using remove_all_config [of h w u] by (simp add: macos_revert_def)
next
  case (6 w)
  then show ?case by (simp add: macos_revert_def remove_all_rest)
next
  case (8 w u w')
  then have "macos_config w' = {}" using remove_all_config [of h w u] by (simp add: macos_revert_def)
  then show ?case
    unfolding macos_revert_def by (intro remove_all_possible) (auto simp: macos_config_def)
qed simp_all

subsection \<open>The fallback\<close>

interpretation noop: system_dns_manager noop_apply noop_revert "\<lambda>w. ()" "\<lambda>ds. ()" "()" "\<lambda>w. w"
    "\<lambda>ds r. True" "\<lambda>w. True"
  by unfold_locales (simp_all add: noop_apply_def noop_revert_def)

section \<open>Properties\<close>

abbreviation rule_turn :: "string list \<Rightarrow> mgr_turn" where
  "rule_turn ds \<equiv> \<lparr>mgr_cancelled = False, mgr_recv = Some (Received (RuleAdded (local_rule ''a.io'' 1 False))), mgr_domains = ds\<rparr>"

abbreviation stop_turn :: mgr_turn where
  "stop_turn \<equiv> \<lparr>mgr_cancelled = True, mgr_recv = None, mgr_domains = []\<rparr>"

definition all_ok :: os where
  "all_ok = \<lparr>can_create_dir = True, can_write = \<lambda>n. True, can_read = \<lambda>n. True, can_remove = \<lambda>n. True, can_reload = True\<rparr>"

text \<open>
  On systemd the task keeps the drop-in file in step with the rules: while it waits for the
  next event the file is the one for the domains of the last rule event (or of the start), and
  every other file is as it was.
\<close>

theorem systemd_in_step:
  assumes "run_system_dns_manager (systemd_apply h) (systemd_revert h) ds ts fs = (MgrWaiting, fs')"
  shows "fs' = fs(drop_in_path \<mapsto> systemd_content (last_applied ts ds))"
proof -
  from systemd.run_in_step [OF _ _ _ assms] have "fs' drop_in_path = Some (systemd_content (last_applied ts ds))"
    "fs'(drop_in_path := None) = fs(drop_in_path := None)" by simp_all
  then show ?thesis by (metis fun_upd_triv fun_upd_upd)
qed

theorem systemd_in_step_witness:
  "snd (run_system_dns_manager (systemd_apply all_ok) (systemd_revert all_ok) [] [rule_turn [''*.a.io'', ''b.io'']] Map.empty)
     = [drop_in_path \<mapsto> systemd_content [''*.a.io'', ''b.io'']]"
proof -
  have "run_system_dns_manager (systemd_apply all_ok) (systemd_revert all_ok) [] [rule_turn [''*.a.io'', ''b.io'']] Map.empty
      = (MgrWaiting, [drop_in_path \<mapsto> systemd_content [''*.a.io'', ''b.io'']])"
    by (simp add: run_system_dns_manager_def systemd_apply_def systemd_revert_def systemd_reload_def all_ok_def)
  from systemd_in_step [OF this] this show ?thesis by simp
qed

text \<open>
  When the task ends in order and the file can be removed, the drop-in file is gone and
  every other file is as it was before the daemon started.
\<close>

theorem systemd_reverted:
  assumes "run_system_dns_manager (systemd_apply h) (systemd_revert h) ds ts fs = (MgrDone, fs')"
    and "can_remove h drop_in_path" "can_reload h"
  shows "fs' = fs(drop_in_path := None)"
proof -
  have "\<exists>v'. systemd_revert h v = (Inr (), v')" for v
    using assms(2,3) by (simp add: systemd_revert_def systemd_reload_def)
  with systemd.run_reverts [OF _ _ _ assms(1)] have "fs' drop_in_path = None"
    "fs'(drop_in_path := None) = fs(drop_in_path := None)" by simp_all
  then show ?thesis by (metis fun_upd_triv)
qed

theorem systemd_reverted_witness:
  "snd (run_system_dns_manager (systemd_apply all_ok) (systemd_revert all_ok) [''a.io''] [rule_turn [''b.io''], stop_turn]
     [''/etc/hosts'' \<mapsto> ''x'']) = [''/etc/hosts'' \<mapsto> ''x'']"
proof -
  let ?run = "run_system_dns_manager (systemd_apply all_ok) (systemd_revert all_ok) [''a.io''] [rule_turn [''b.io''], stop_turn]
     [''/etc/hosts'' \<mapsto> ''x'']"
  have "fst ?run = MgrDone"
    by (simp add: run_system_dns_manager_def systemd_apply_def systemd_revert_def systemd_reload_def all_ok_def)
  then have "?run = (MgrDone, snd ?run)" by (metis prod.collapse)
  from systemd_reverted [OF this] show ?thesis
    by (simp add: all_ok_def drop_in_path_def DROP_IN_DIR_def fun_eq_iff)
qed



text \<open>
  Without that proviso the user's file is lost: a resolver file of the user for a routed
  domain is overwritten by apply, then carries SideDNS's mark and is deleted by revert.
\<close>

theorem macos_user_file_lost:
  "let dir = [(''a.io'', ''nameserver 10.0.0.1'')];
       dir' = snd (macos_apply all_ok [''a.io''] dir)
   in macos_apply all_ok [''a.io''] dir = (Inr (), [(''a.io'', resolver_content)]) \<and>
      macos_revert all_ok dir' = (Inr (), [])"
proof -
  have "\<not> contains ''nameserver 10.0.0.1'' ''Managed by SideDNS''" by code_simp
  moreover have "contains resolver_content ''Managed by SideDNS''" using marked_content by (simp add: marked_def)
  moreover have "resolver_name ''a.io'' = ''a.io''" by code_simp
  ultimately show ?thesis
    by (simp add: macos_apply_def macos_revert_def is_sidedns_file_def all_ok_def)
qed

text \<open>
  An error while applying ends the task without reverting: if systemd-resolved cannot be
  reloaded, the drop-in file written just before stays on disk.
\<close>

theorem apply_error_leaves_config:
  "run_system_dns_manager (systemd_apply (all_ok\<lparr>can_reload := False\<rparr>)) (systemd_revert (all_ok\<lparr>can_reload := False\<rparr>)) ds ts fs =
     (MgrError ''Failed to reload systemd-resolved'', fs(drop_in_path \<mapsto> systemd_content ds))"
  by (simp add: run_system_dns_manager_def systemd_apply_def systemd_revert_def systemd_reload_def all_ok_def)

text \<open>
  On Windows applying runs, in order, the script that removes the managed rules and one
  script per domain; and the name of a validated domain cannot end the quoted argument it is
  put in.
\<close>

theorem windows_scripts:
  assumes "list_all validate_domain ds"
  shows "windows_apply (\<lambda>s w. (True, w @ [s])) ds w =
      (Inr (), w @ nrpt_remove_script # map (\<lambda>d. nrpt_add_script (nrpt_namespace d)) ds) \<and>
    list_all (\<lambda>d. CHR 0x27 \<notin> set (nrpt_namespace d)) ds"
proof -
  have run: "run_scripts (\<lambda>s w. (True, w @ [s])) ss v = (Inr (), v @ ss)" for ss v
    by (induction ss arbitrary: v) (simp_all add: powershell_def)
  have "CHR 0x27 \<notin> set (nrpt_namespace d)" if "validate_domain d" for d
  proof -
    have "\<not> domain_byte CHR 0x27" by code_simp
    with domain_bytes_DOMAIN [of d] that have "CHR 0x27 \<notin> set d"
      by (auto simp: validate_domain_def re_matches_correct)
    then show ?thesis
      by (auto simp: nrpt_namespace_def strip_prefix_iff split: option.split)
  qed
  with assms run show ?thesis
    by (simp add: windows_apply_def powershell_def list_all_iff)
qed

theorem windows_scripts_witness:
  "list_all validate_domain [''*.a.io''] \<and> list_all (\<lambda>d. CHR 0x27 \<notin> set (nrpt_namespace d)) [''*.a.io'']"
proof -
  have "validate_domain ''*.a.io''" by (subst validate_domain_eq_ok, simp, code_simp)
  then have "list_all validate_domain [''*.a.io'']" by simp
  with windows_scripts [OF this] show ?thesis by blast
qed

end
