(* ===== verification/Daemon.thy ===== *)
theory Daemon
  imports DnsServer Proxy
begin

text \<open>
  The daemon (core/src/runner.rs): start-up, the task that watches rule events, and shutdown,
  together with the request handler and the caching resolver they share.

  A run is a sequence of steps: a request is handled, a name is looked up, a TLS client says
  hello, the watch task receives. The broadcast channel is the queue of the watch task's
  receiver with the capacity the code asks for; a receiver further behind than that is told that
  it lagged and goes on with the oldest event still kept.
\<close>

section \<open>State and start-up\<close>

record ('ca, 'cert, 'd) daemon =
  d_app :: app_state
  d_res :: "('ca, 'cert) domain_resolver"
  d_queue :: "dns_event list"
  d_watching :: bool
  d_disk :: 'd
  d_inflight :: "(string \<times> dns_rule) list"
  d_signing :: "string list"

text \<open>Every call of the authority draws its own randomness, the first argument.\<close>

type_synonym ('ca, 'cert) signer = "nat \<Rightarrow> ('ca, 'cert) sign"

definition presign ::
    "('ca, 'cert) signer \<Rightarrow> dns_rule list \<Rightarrow> ('ca, 'cert) domain_resolver \<Rightarrow> ('ca, 'cert) domain_resolver" where
  "presign sign rs res =
     fold (\<lambda>(k, r) res. snd (sign_domain (sign k) (domain r) res))
       (List.enumerate 0 (filter (\<lambda>r. https r \<and> \<not> is_wildcard r) rs)) res"

definition daemon_start ::
    "'d confy_load \<Rightarrow> ('ca, 'cert) signer \<Rightarrow> bool \<Rightarrow> 'ca option \<Rightarrow> 'd \<Rightarrow> ('ca, 'cert, 'd) daemon" where
  "daemon_start lod sign installed ca d =
     (let (rs, app) = load_rules lod d (app_state_new False);
          res = domain_resolver_new ca
      in \<lparr>d_app = app, d_res = (if is_cert_installed installed res then presign sign rs res else res),
          d_queue = [], d_watching = True, d_disk = d, d_inflight = [], d_signing = []\<rparr>)"

section \<open>The watch task\<close>

definition channel_capacity :: nat where
  "channel_capacity = 64"

fun on_event :: "'d confy_store \<Rightarrow> dns_event \<Rightarrow> ('ca, 'cert, 'd) daemon \<Rightarrow> ('ca, 'cert, 'd) daemon" where
  "on_event sto (RuleAdded r) d =
     d\<lparr>d_res := invalidate r (d_res d), d_disk := save sto (d_app d) (d_disk d)\<rparr>"
| "on_event sto (RuleRemoved r) d =
     d\<lparr>d_res := invalidate r (d_res d), d_disk := save sto (d_app d) (d_disk d)\<rparr>"
| "on_event sto (EphemeralAdded r) d = d\<lparr>d_res := invalidate r (d_res d)\<rparr>"
| "on_event sto (EphemeralRemoved r) d = d\<lparr>d_res := invalidate r (d_res d)\<rparr>"
| "on_event sto DaemonStopped d = d"

definition watch_step :: "'d confy_store \<Rightarrow> ('ca, 'cert, 'd) daemon \<Rightarrow> ('ca, 'cert, 'd) daemon" where
  "watch_step sto d =
     (if \<not> d_watching d then d
      else if length (d_queue d) > channel_capacity
      then d\<lparr>d_queue := drop (length (d_queue d) - channel_capacity) (d_queue d)\<rparr>
      else case d_queue d of [] \<Rightarrow> d | e # es \<Rightarrow> on_event sto e (d\<lparr>d_queue := es\<rparr>))"

section \<open>Runs\<close>

text \<open>
  A lookup is one step, or two when another task runs between its read of the store and its
  write of the cache; a client hello is one step, or two when another task runs between the
  check of the rule and the signature. Halves that wait may end in any order. The watch task may
  end at any time once the token is cancelled.
\<close>

definition nth_drop :: "nat \<Rightarrow> 'a list \<Rightarrow> ('a \<times> 'a list) option" where
  "nth_drop i xs = (if i < length xs then Some (xs ! i, take i xs @ drop (Suc i) xs) else None)"

datatype daemon_step =
    Request ipc_request
  | Lookup string
  | Hello nat "string option"
  | HelloBegin string
  | HelloEnd nat nat
  | LookupBegin string
  | LookupEnd nat
  | Watch
  | WatchCancelled

definition daemon_request :: "ipc_request \<Rightarrow> ('ca, 'cert, 'd) daemon \<Rightarrow> ('ca, 'cert, 'd) daemon" where
  "daemon_request r d =
     d\<lparr>d_app := snd (handle r (d_app d)), d_queue := d_queue d @ task_events r (d_app d)\<rparr>"

definition hello_begin :: "string \<Rightarrow> ('ca, 'cert, 'd) daemon \<Rightarrow> ('ca, 'cert, 'd) daemon" where
  "hello_begin n d =
     (if cert_authority (d_res d) = None then d
      else (let (rule, res) = resolve_domain (store (d_app d)) n (d_res d) in
            if \<not> (case rule of Some r \<Rightarrow> https r | None \<Rightarrow> False) \<or> map_of (certs_cache res) n \<noteq> None
            then d\<lparr>d_res := res\<rparr>
            else d\<lparr>d_res := res, d_signing := d_signing d @ [n]\<rparr>))"

definition hello_end :: "('ca, 'cert) sign \<Rightarrow> nat \<Rightarrow> ('ca, 'cert, 'd) daemon \<Rightarrow> ('ca, 'cert, 'd) daemon" where
  "hello_end sign i d =
     (case nth_drop i (d_signing d) of
        None \<Rightarrow> d
      | Some (n, ns) \<Rightarrow> d\<lparr>d_res := snd (sign_domain sign n (d_res d)), d_signing := ns\<rparr>)"

fun daemon_exec ::
    "'d confy_store \<Rightarrow> ('ca, 'cert) signer \<Rightarrow> daemon_step \<Rightarrow> ('ca, 'cert, 'd) daemon \<Rightarrow> ('ca, 'cert, 'd) daemon" where
  "daemon_exec sto sign (Request r) d = daemon_request r d"
| "daemon_exec sto sign (Lookup n) d = d\<lparr>d_res := snd (resolve_domain (store (d_app d)) n (d_res d))\<rparr>"
| "daemon_exec sto sign (Hello k n) d = d\<lparr>d_res := snd (resolve_cert (sign k) (store (d_app d)) n (d_res d))\<rparr>"
| "daemon_exec sto sign (HelloBegin n) d = hello_begin n d"
| "daemon_exec sto sign (HelloEnd k i) d = hello_end (sign k) i d"
| "daemon_exec sto sign (LookupBegin n) d =
     (if map_of (cache (d_res d)) n = None
      then case store_resolve (store (d_app d)) n of
             Some r \<Rightarrow> d\<lparr>d_inflight := d_inflight d @ [(n, r)]\<rparr>
           | None \<Rightarrow> d
      else d)"
| "daemon_exec sto sign (LookupEnd i) d =
     (case nth_drop i (d_inflight d) of
        None \<Rightarrow> d
      | Some ((n, r), fs) \<Rightarrow> d\<lparr>d_res := (d_res d)\<lparr>cache := AList.update n r (cache (d_res d))\<rparr>, d_inflight := fs\<rparr>)"
| "daemon_exec sto sign Watch d = watch_step sto d"
| "daemon_exec sto sign WatchCancelled d = (if token (d_app d) then d\<lparr>d_watching := False\<rparr> else d)"

definition daemon_run ::
    "'d confy_store \<Rightarrow> ('ca, 'cert) signer \<Rightarrow> daemon_step list \<Rightarrow> ('ca, 'cert, 'd) daemon \<Rightarrow> ('ca, 'cert, 'd) daemon" where
  "daemon_run sto sign xs d = fold (daemon_exec sto sign) xs d"

text \<open>What ends the main task: a signal, or the token cancelled by someone else.\<close>

datatype wake = CtrlC | TokenCancelled | Sigterm

fun on_wake :: "wake \<Rightarrow> app_state \<Rightarrow> app_state" where
  "on_wake CtrlC st = st\<lparr>token := True\<rparr>"
| "on_wake TokenCancelled st = snd (dispatch 1 DaemonStopped st)"
| "on_wake Sigterm st = st\<lparr>token := True\<rparr>"

section \<open>Calm runs\<close>

text \<open>
  A run is calm if the watch task keeps up and keeps running, lookups are not interleaved with
  other steps, and no layer has overlapping wildcards.
\<close>

fun calm_step :: "daemon_step \<Rightarrow> bool" where
  "calm_step (LookupBegin n) = False"
| "calm_step (LookupEnd i) = False"
| "calm_step WatchCancelled = False"
| "calm_step x = True"

fun calm :: "'d confy_store \<Rightarrow> ('ca, 'cert) signer \<Rightarrow> daemon_step list \<Rightarrow> ('ca, 'cert, 'd) daemon \<Rightarrow> bool" where
  "calm sto sign [] d = True"
| "calm sto sign (x # xs) d =
     (calm_step x \<and> length (d_queue d) \<le> channel_capacity \<and> no_overlap (store (d_app d)) \<and>
      calm sto sign xs (daemon_exec sto sign x d))"

definition pending_rules :: "('ca, 'cert, 'd) daemon \<Rightarrow> dns_rule list" where
  "pending_rules d = List.map_filter event_rule (d_queue d)"

definition daemon_inv :: "('ca, 'cert, 'd) daemon \<Rightarrow> bool" where
  "daemon_inv d = (app_inv (d_app d) \<and> d_watching d \<and>
     rules.coherent (store (d_app d)) (pending_rules d) (d_res d))"

lemma map_filter_append: "List.map_filter f (xs @ ys) = List.map_filter f xs @ List.map_filter f ys"
  by (simp add: List.map_filter_def)

lemma map_filter_Cons: "List.map_filter f (x # xs) = (case f x of Some y \<Rightarrow> y # List.map_filter f xs | None \<Rightarrow> List.map_filter f xs)"
  by (simp add: List.map_filter_def split: option.split)

lemma on_event_simps [simp]:
  "d_app (on_event sto e d) = d_app d" "d_queue (on_event sto e d) = d_queue d"
  "d_watching (on_event sto e d) = d_watching d"
  "d_res (on_event sto e d) = (case event_rule e of Some r \<Rightarrow> invalidate r (d_res d) | None \<Rightarrow> d_res d)"
  by (cases e; simp)+

lemma hello_begin_simps [simp]:
  "d_app (hello_begin n d) = d_app d" "d_queue (hello_begin n d) = d_queue d"
  "d_watching (hello_begin n d) = d_watching d" "d_disk (hello_begin n d) = d_disk d"
  "d_inflight (hello_begin n d) = d_inflight d"
  "d_res (hello_begin n d) =
     (if cert_authority (d_res d) = None then d_res d else snd (resolve_domain (store (d_app d)) n (d_res d)))"
  by (simp_all add: hello_begin_def Let_def split_beta)

lemma hello_end_simps [simp]:
  "d_app (hello_end sign i d) = d_app d" "d_queue (hello_end sign i d) = d_queue d"
  "d_watching (hello_end sign i d) = d_watching d" "d_disk (hello_end sign i d) = d_disk d"
  "d_inflight (hello_end sign i d) = d_inflight d"
  "d_res (hello_end sign i d) =
     (case nth_drop i (d_signing d) of None \<Rightarrow> d_res d | Some (n, ns) \<Rightarrow> snd (sign_domain sign n (d_res d)))"
  by (simp_all add: hello_end_def split: option.split prod.split)

lemma daemon_inv_request:
  assumes "daemon_inv d" "no_overlap (store (d_app d))"
  shows "daemon_inv (daemon_request r d)"
proof -
  have "rules.coherent (store (snd (handle r (d_app d)))) (pending_rules d @ request_rules r (d_app d)) (d_res d)"
  proof (rule rules.coherent_change)
    show "rules.coherent (store (d_app d)) (pending_rules d) (d_res d)"
      using assms(1) by (simp add: daemon_inv_def)
  qed (use assms in \<open>simp add: daemon_inv_def handle_frame\<close>)
  with assms show ?thesis
    by (simp add: daemon_inv_def daemon_request_def pending_rules_def map_filter_append request_rules_def handle_inv)
qed

lemma daemon_inv_watch:
  assumes "daemon_inv d" "length (d_queue d) \<le> channel_capacity"
  shows "daemon_inv (watch_step sto d)"
proof (cases "d_queue d")
  case (Cons e es)
  with assms show ?thesis
    by (auto simp: daemon_inv_def watch_step_def pending_rules_def map_filter_Cons split: option.split
      intro: rules.coherent_purge)
qed (use assms in \<open>simp add: watch_step_def\<close>)

lemma daemon_inv_exec:
  assumes "daemon_inv d" "calm_step x" "length (d_queue d) \<le> channel_capacity" "no_overlap (store (d_app d))"
  shows "daemon_inv (daemon_exec sto sign x d)"
proof (cases x)
  case (Lookup n)
  with assms(1) show ?thesis by (simp add: daemon_inv_def pending_rules_def resolve_domain_pending)
next
  case (Hello k n)
  with assms(1) show ?thesis by (simp add: daemon_inv_def pending_rules_def resolve_cert_pending)
next
  case (HelloBegin n)
  with assms(1) show ?thesis
    by (simp add: daemon_inv_def pending_rules_def resolve_domain_pending)
next
  case (HelloEnd k i)
  with assms(1) show ?thesis
    by (auto simp: daemon_inv_def pending_rules_def coherent_cache [OF sign_domain_frame(2)] split: option.split)
qed (use assms in \<open>simp_all add: daemon_inv_request daemon_inv_watch\<close>)

lemma daemon_inv_run: "daemon_inv d \<Longrightarrow> calm sto sign xs d \<Longrightarrow> daemon_inv (daemon_run sto sign xs d)"
  by (induction xs arbitrary: d) (simp_all add: daemon_run_def daemon_inv_exec)

text \<open>What a fresh daemon knows: the rules of the file, if the file has valid rules only.\<close>

definition config_ok :: "'d confy_load \<Rightarrow> 'd \<Rightarrow> bool" where
  "config_ok lod d = (case lod d of Some c \<Rightarrow> list_all name_valid (rules c) | None \<Rightarrow> True)"

lemma presign_cache [simp]: "cache (presign sign rs res) = cache res"
  unfolding presign_def
  by (rule fold_invariant [where Q = "\<lambda>x. True" and P = "\<lambda>res'. cache res' = cache res"]) auto

lemma load_rules_inv:
  assumes "config_ok lod d"
  shows "app_inv (snd (load_rules lod d (app_state_new tok)))"
proof -
  let ?rs = "case lod d of Some c \<Rightarrow> rules c | None \<Rightarrow> []"
  have "\<forall>r\<in>set (op_rules (OpAddAll ?rs)). name_valid r"
    using assms by (simp add: config_ok_def list_all_iff split: option.splits)
  from app_inv_apply [OF app_inv_new this, of tok] show ?thesis
    by (simp add: load_rules_def Let_def map_prod_def split_beta)
qed

lemma daemon_inv_start: "config_ok lod d \<Longrightarrow> daemon_inv (daemon_start lod sign installed ca d)"
  using load_rules_inv [of lod d False]
  by (simp add: daemon_inv_def daemon_start_def split_beta Let_def rules.coherent_def domain_resolver_new_def)

section \<open>The configuration file\<close>

fun persistent_event :: "dns_event \<Rightarrow> bool" where
  "persistent_event (RuleAdded r) = True"
| "persistent_event (RuleRemoved r) = True"
| "persistent_event e = False"

text \<open>The file has the persistent rules in force, or an event that makes the task save is pending.\<close>

definition disk_inv :: "'d confy_load \<Rightarrow> ('ca, 'cert, 'd) daemon \<Rightarrow> bool" where
  "disk_inv lod d = (lod (d_disk d) = Some \<lparr>rules = snapshot_permanent (d_app d)\<rparr> \<or>
     list_ex persistent_event (d_queue d))"

lemma inner_remove_absent:
  assumes "store_inv s" "persistent s n = None"
  shows "snd (inner_remove n s) = s"
proof (cases "position (\<lambda>q. domain q = n) (persistent_wildcard s)")
  case None
  with assms layer_of_delete(2) [OF None, of "persistent_exact s"] have "map_of (persistent_exact s) n = None"
    by (simp add: persistent_def)
  with None show ?thesis by (simp add: inner_remove_def Let_def map_of_eq_None_iff AList.delete_id)
next
  case (Some i)
  with assms layer_of_swap_remove(2) [OF _ _ Some] show ?thesis by (simp add: store_inv_def persistent_def)
qed

lemma ephemeral_ops_persistent [simp]:
  "persistent_rules (inner_add_ephemeral r s) = persistent_rules s"
  "persistent_rules (snd (inner_remove_ephemeral n s)) = persistent_rules s"
  by (simp_all add: inner_add_ephemeral_def inner_remove_ephemeral_def persistent_rules_def Let_def split: option.split)

lemma op_persistent:
  assumes "store_inv s" "\<not> list_ex persistent_event (op_event op (store_abs s))" "\<forall>rs. op \<noteq> OpAddAll rs"
  shows "persistent_rules (snd (store_apply op s)) = persistent_rules s"
proof (cases op)
  case (OpRemove n)
  with assms have "persistent s n = None" by (simp split: option.splits)
  with OpRemove assms(1) show ?thesis
    by (simp add: store_method_defs map_prod_def split_beta inner_remove_absent)
qed (use assms in \<open>simp_all add: store_method_defs map_prod_def split_beta\<close>)

lemma handle_persistent:
  assumes "app_inv st" "\<not> list_ex persistent_event (task_events r st)"
  shows "snapshot_permanent (snd (handle r st)) = snapshot_permanent st"
proof (cases "request_op r")
  case None
  then show ?thesis by (simp add: snapshot_permanent_def handle_store)
next
  case (Some op)
  then have "r \<noteq> Stop" "\<forall>rs. op \<noteq> OpAddAll rs" by (cases r; auto split: if_splits)+
  with Some assms op_persistent [of "store st" op] show ?thesis
    by (simp add: snapshot_permanent_def snapshot_persistent_def handle_store task_events_def handle_events
      spec_events_def)
qed

lemma disk_inv_request:
  "app_inv (d_app d) \<Longrightarrow> disk_inv lod d \<Longrightarrow> disk_inv lod (daemon_request r d)"
  using handle_persistent [of "d_app d" r] by (auto simp: disk_inv_def daemon_request_def)

lemma disk_inv_watch:
  assumes "disk_inv lod d" "length (d_queue d) \<le> channel_capacity" "\<forall>c x. confy_ok sto lod c x"
  shows "disk_inv lod (watch_step sto d)"
proof (cases "d_queue d")
  case (Cons e es)
  with assms show ?thesis
    by (cases e) (auto simp: disk_inv_def watch_step_def save_def confy_ok_def)
qed (use assms in \<open>simp add: watch_step_def\<close>)

lemma disk_inv_exec:
  assumes "disk_inv lod d" "daemon_inv d" "calm_step x" "length (d_queue d) \<le> channel_capacity"
    and "\<forall>c x. confy_ok sto lod c x"
  shows "disk_inv lod (daemon_exec sto sign x d)"
proof (cases x)
  case (Request r)
  with assms show ?thesis by (simp add: disk_inv_request daemon_inv_def)
next
  case Watch
  with assms show ?thesis by (simp add: disk_inv_watch)
qed (use assms in \<open>simp_all add: disk_inv_def\<close>)

lemma disk_inv_run:
  "disk_inv lod d \<Longrightarrow> daemon_inv d \<Longrightarrow> calm sto sign xs d \<Longrightarrow> \<forall>c x. confy_ok sto lod c x \<Longrightarrow>
   disk_inv lod (daemon_run sto sign xs d)"
proof (induction xs arbitrary: d)
  case (Cons x xs)
  then have "disk_inv lod (daemon_exec sto sign x d)" "daemon_inv (daemon_exec sto sign x d)"
    by (simp_all add: disk_inv_exec daemon_inv_exec)
  with Cons show ?case by (simp add: daemon_run_def)
qed (simp add: daemon_run_def)

text \<open>A cache that disagrees only where an event is pending is right everywhere else.\<close>

lemma lookup_in_step:
  assumes "rules.coherent s ps res" "\<not> list_ex (\<lambda>q. matches q n) ps"
  shows "fst (resolve_domain s n res) = inner_resolve s n"
proof (cases "map_of (cache res) n")
  case (Some r)
  with assms have "inner_resolve s n = Some r" by (auto simp: rules.coherent_def)
  with Some show ?thesis by (simp add: resolve_domain_def)
qed (simp add: resolve_domain_def store_resolve_def split: option.split)

lemma calm_lookup:
  "daemon_inv d \<Longrightarrow> \<not> list_ex (\<lambda>q. matches q n) (pending_rules d) \<Longrightarrow>
   fst (resolve_domain (store (d_app d)) n (d_res d)) = inner_resolve (store (d_app d)) n"
  by (auto simp: daemon_inv_def intro: lookup_in_step)

section \<open>A concrete daemon\<close>

text \<open>A file that takes every configuration, an authority that signs with the name, and two rules.\<close>

abbreviation sample_sto :: "dns_config option confy_store" where
  "sample_sto \<equiv> \<lambda>c d. (True, Some c)"

abbreviation sample_sign :: "(unit, string) signer" where
  "sample_sign \<equiv> \<lambda>k ca ds. Some (hd ds)"

definition sample_daemon :: "(unit, string, dns_config option) daemon" where
  "sample_daemon = daemon_start id sample_sign False None (Some \<lparr>rules = []\<rparr>)"

abbreviation add_a :: "u16 \<Rightarrow> ipc_request" where
  "add_a p \<equiv> Add ''a.io'' (SocketAddrV4 ipv4_localhost p) False"

lemma sample_daemon_eq:
  "sample_daemon = \<lparr>d_app = app_state_new False, d_res = domain_resolver_new None, d_queue = [],
     d_watching = True, d_disk = Some \<lparr>rules = []\<rparr>, d_inflight = [], d_signing = []\<rparr>"
  by (simp add: sample_daemon_def daemon_start_def load_rules_def store_add_all_def inner_add_all_def
    app_state_new_def is_cert_installed_def domain_resolver_new_def)

lemma handle_add_a:
  "handle (add_a p) st = (Ok, st\<lparr>store := inner_add (local_rule ''a.io'' p False) (store st),
     events := events st @ [RuleAdded (local_rule ''a.io'' p False)]\<rparr>)"
proof -
  have "validate_domain ''a.io''" by (subst validate_domain_eq_ok, simp, code_simp)
  moreover have "to_lowercase ''a.io'' = ''a.io''" by code_simp
  ultimately show ?thesis by (simp add: handler_defs store_method_defs)
qed

lemma request_add_a:
  "daemon_request (add_a p) d = d\<lparr>d_app := (d_app d)\<lparr>store := inner_add (local_rule ''a.io'' p False) (store (d_app d)),
     events := events (d_app d) @ [RuleAdded (local_rule ''a.io'' p False)]\<rparr>,
     d_queue := d_queue d @ [RuleAdded (local_rule ''a.io'' p False)]\<rparr>"
  by (simp add: daemon_request_def task_events_def handle_add_a del: handle.simps)

lemma resolve_added:
  "store_inv s \<Longrightarrow> ephemeral_exact s = [] \<Longrightarrow> ephemeral_wildcard s = [] \<Longrightarrow>
   inner_resolve (inner_add (local_rule ''a.io'' p False) s) ''a.io'' = Some (local_rule ''a.io'' p False)"
  by (simp add: inner_resolve_def inner_add_def is_wildcard_def find_wildcard_def table_simps)

lemma no_overlap_no_wildcards:
  "persistent_wildcard s = [] \<Longrightarrow> ephemeral_wildcard s = [] \<Longrightarrow> no_overlap s"
  by (simp add: no_overlap_def single_match_def)

lemma sample_calm:
  "calm sample_sto sample_sign [Request (add_a 1), Watch, Lookup ''a.io'', Request (add_a 2), Watch] sample_daemon"
  by (simp add: sample_daemon_eq request_add_a watch_step_def channel_capacity_def app_state_new_def inner_new_def
    inner_add_def is_wildcard_def no_overlap_no_wildcards)

lemma sample_run:
  "store (d_app (daemon_run sample_sto sample_sign [Request (add_a 1), Watch, Lookup ''a.io'', Request (add_a 2), Watch] sample_daemon)) =
     inner_add (local_rule ''a.io'' 2 False) (inner_add (local_rule ''a.io'' 1 False) inner_new) \<and>
   d_queue (daemon_run sample_sto sample_sign [Request (add_a 1), Watch, Lookup ''a.io'', Request (add_a 2), Watch] sample_daemon) = []"
  by (simp add: daemon_run_def sample_daemon_eq request_add_a watch_step_def channel_capacity_def app_state_new_def)

lemma sample_resolve:
  "inner_resolve (inner_add (local_rule ''a.io'' 2 False) (inner_add (local_rule ''a.io'' 1 False) inner_new)) ''a.io'' =
     Some (local_rule ''a.io'' 2 False)"
  by code_simp

lemma sample_resolve_first:
  "inner_resolve (inner_add (local_rule ''a.io'' 1 False) inner_new) ''a.io'' = Some (local_rule ''a.io'' 1 False)"
  by code_simp

lemma request_stop:
  "daemon_request Stop d = d\<lparr>d_app := (d_app d)\<lparr>events := events (d_app d) @ [DaemonStopped], token := True\<rparr>,
     d_queue := d_queue d @ [DaemonStopped]\<rparr>"
  by (simp add: daemon_request_def task_events_def emit_def)

section \<open>Properties\<close>

text \<open>
  The caches keep up with the rules. In every calm run from start-up, a lookup through the
  cache gives what the store gives, for every name that no rule of a pending event matches; in
  particular for every name once the watch task has received all events.
\<close>

theorem cache_in_step:
  assumes "config_ok lod disk" "calm sto sign xs (daemon_start lod sign installed ca disk)"
    and "d = daemon_run sto sign xs (daemon_start lod sign installed ca disk)"
    and "\<not> list_ex (\<lambda>q. matches q n) (pending_rules d)"
  shows "fst (resolve_domain (store (d_app d)) n (d_res d)) = inner_resolve (store (d_app d)) n"
  using daemon_inv_run [OF daemon_inv_start [OF assms(1)] assms(2)] assms(3,4) by (simp add: calm_lookup)

theorem cache_in_step_witness:
  "\<exists>d. d = daemon_run sample_sto sample_sign [Request (add_a 1), Watch, Lookup ''a.io'', Request (add_a 2), Watch] sample_daemon \<and>
     fst (resolve_domain (store (d_app d)) ''a.io'' (d_res d)) = Some (local_rule ''a.io'' 2 False)"
proof -
  let ?d = "daemon_run sample_sto sample_sign [Request (add_a 1), Watch, Lookup ''a.io'', Request (add_a 2), Watch] sample_daemon"
  have "config_ok id (Some \<lparr>rules = []\<rparr>)" by (simp add: config_ok_def)
  moreover have "pending_rules ?d = []" using sample_run by (simp add: pending_rules_def List.map_filter_def)
  ultimately have "fst (resolve_domain (store (d_app ?d)) ''a.io'' (d_res ?d)) = inner_resolve (store (d_app ?d)) ''a.io''"
    using cache_in_step [of id "Some \<lparr>rules = []\<rparr>" sample_sto sample_sign
        "[Request (add_a 1), Watch, Lookup ''a.io'', Request (add_a 2), Watch]" False None ?d "''a.io''"]
      sample_calm by (simp add: sample_daemon_def)
  with sample_run sample_resolve show ?thesis by (intro exI [of _ ?d]) simp
qed

text \<open>
  The configuration file keeps up with the rules. If the file takes what is written and
  starts out with the rules in force, then in every calm run the file holds exactly the
  persistent rules whenever no event about a persistent rule is pending.
\<close>

theorem file_in_step:
  assumes "config_ok lod disk" "calm sto sign xs (daemon_start lod sign installed ca disk)"
    and "d = daemon_run sto sign xs (daemon_start lod sign installed ca disk)"
    and "\<forall>c x. confy_ok sto lod c x" "disk_inv lod (daemon_start lod sign installed ca disk)"
    and "\<not> list_ex persistent_event (d_queue d)"
  shows "lod (d_disk d) = Some \<lparr>rules = snapshot_permanent (d_app d)\<rparr>"
  using disk_inv_run [OF assms(5) daemon_inv_start [OF assms(1)] assms(2,4)] assms(3,6)
  by (simp add: disk_inv_def)

theorem file_in_step_witness:
  "\<exists>d. d = daemon_run sample_sto sample_sign [Request (add_a 1), Watch, Lookup ''a.io'', Request (add_a 2), Watch] sample_daemon \<and>
     d_disk d = Some \<lparr>rules = [local_rule ''a.io'' 2 False]\<rparr>"
proof -
  let ?d = "daemon_run sample_sto sample_sign [Request (add_a 1), Watch, Lookup ''a.io'', Request (add_a 2), Watch] sample_daemon"
  have "config_ok id (Some \<lparr>rules = []\<rparr>)" by (simp add: config_ok_def)
  moreover have "\<forall>c x. confy_ok sample_sto id c x" by (simp add: confy_ok_def)
  moreover have "disk_inv id sample_daemon"
    by (simp add: disk_inv_def sample_daemon_eq snapshot_permanent_def snapshot_persistent_def persistent_rules_def
      app_state_new_def inner_new_def)
  ultimately have "id (d_disk ?d) = Some \<lparr>rules = snapshot_permanent (d_app ?d)\<rparr>"
    using file_in_step [of id "Some \<lparr>rules = []\<rparr>" sample_sto sample_sign
        "[Request (add_a 1), Watch, Lookup ''a.io'', Request (add_a 2), Watch]" False None ?d] sample_calm sample_run
    by (simp add: sample_daemon_def)
  moreover have "snapshot_permanent (d_app ?d) = [local_rule ''a.io'' 2 False]"
    using sample_run by (simp add: snapshot_permanent_def snapshot_persistent_def persistent_rules_def inner_add_def
      is_wildcard_def inner_new_def)
  ultimately show ?thesis by (intro exI [of _ ?d]) simp
qed

text \<open>
  A lookup that reads the store before a rule is replaced and fills the cache after the
  invalidation leaves a stale entry: all events are received, no lookup is under way, and the
  resolver still answers with the old rule.
\<close>

theorem stale_cache_race:
  "let d = daemon_run sample_sto sample_sign
       [Request (add_a 1), Watch, LookupBegin ''a.io'', Request (add_a 2), Watch, LookupEnd 0] sample_daemon
   in d_queue d = [] \<and> d_inflight d = [] \<and>
      inner_resolve (store (d_app d)) ''a.io'' = Some (local_rule ''a.io'' 2 False) \<and>
      fst (resolve_domain (store (d_app d)) ''a.io'' (d_res d)) = Some (local_rule ''a.io'' 1 False)"
  by (simp add: daemon_run_def sample_daemon_eq request_add_a watch_step_def channel_capacity_def app_state_new_def
    sample_resolve sample_resolve_first domain_resolver_new_def invalidate_def store_resolve_def resolve_domain_def nth_drop_def)

text \<open>
  An acknowledged rule can be lost: if Stop follows an Add before the watch task has
  received the event, the task may see the token first and end without saving.
\<close>

theorem acknowledged_rule_lost:
  "let d = daemon_run sample_sto sample_sign [Request (add_a 1), Request Stop, WatchCancelled, Watch] sample_daemon
   in fst (handle (add_a 1) (d_app sample_daemon)) = Ok \<and> \<not> d_watching d \<and> d_disk d = Some \<lparr>rules = []\<rparr> \<and>
      inner_resolve (store (d_app d)) ''a.io'' = Some (local_rule ''a.io'' 1 False)"
  by (simp add: daemon_run_def sample_daemon_eq request_add_a request_stop watch_step_def app_state_new_def
    sample_resolve_first handle_add_a del: handle.simps)

text \<open>
  Only a stop through the control channel is announced: after a signal the token is
  cancelled and no event is sent.
\<close>

theorem signal_not_announced:
  "events (on_wake CtrlC st) = events st \<and> events (on_wake Sigterm st) = events st \<and>
   token (on_wake CtrlC st) \<and> token (on_wake Sigterm st) \<and>
   events (on_wake TokenCancelled st) = events st @ [DaemonStopped]"
  by (simp add: dispatch_def)

end
