(* ===== verification/Ca.thy ===== *)
theory Ca
  imports SysDns Resolver
begin

text \<open>
  The root certificate and its key (core/src/certs/ca.rs): the two files, loading, generating,
  saving, removing, and signing.

  Key generation, PEM parsing and signing are a library: the fields of \<open>pki\<close>. Signing draws a
  fresh key pair and serial number, so two calls with the same arguments differ: the first
  argument of \<open>signed_by\<close> stands for what the call draws. An authority is generated at most once
  by a process. The files are those of \<open>SysDns\<close>.
\<close>

section \<open>The certificate authority\<close>

text \<open>The parameters of a certificate; the distinguished name is the sequence of its pushes.\<close>

datatype dn_type = CommonName | OrganizationName | OrganizationalUnitName

datatype key_usage = DigitalSignature | KeyCertSign | CrlSign

datatype extended_key_usage = ServerAuth

record cert_params =
  subject_alt_names :: "string list"
  dn_pushes :: "(dn_type \<times> string) list"
  ca_path_len :: "nat option"
  key_usages :: "key_usage list"
  extended_key_usages :: "extended_key_usage list"

record ('ca, 'cert) pki =
  issuer_from_pem :: "string \<Rightarrow> string \<Rightarrow> string + 'ca"
  generate_ca :: "cert_params \<Rightarrow> string + (string \<times> string \<times> 'ca)"
  signed_by :: "nat \<Rightarrow> 'ca \<Rightarrow> cert_params \<Rightarrow> string + 'cert"

definition CERT_NAME :: string where
  "CERT_NAME = ''SideDNS Local CA''"

record ca_pem =
  pem_cert :: string
  pem_key :: string

definition cert_path :: "string \<Rightarrow> string" where
  "cert_path dir = dir @ ''/SideDNS-CA.crt''"

definition cert_key_path :: "string \<Rightarrow> string" where
  "cert_key_path dir = dir @ ''/SideDNS-CA.key''"

definition write_file :: "os \<Rightarrow> string \<Rightarrow> string \<Rightarrow> files \<Rightarrow> files outcome" where
  "write_file h p c fs = (if can_write h p then (Inr (), fs(p \<mapsto> c)) else (Inl ''write'', fs))"

definition remove_file :: "os \<Rightarrow> string \<Rightarrow> files \<Rightarrow> files outcome" where
  "remove_file h p fs = (if fs p \<noteq> None \<and> can_remove h p then (Inr (), fs(p := None)) else (Inl ''remove_file'', fs))"

text \<open>The two steps of an operation that may fail: the second runs only if the first succeeds.\<close>

definition andthen :: "'w outcome \<Rightarrow> ('w \<Rightarrow> 'w outcome) \<Rightarrow> 'w outcome" where
  "andthen r f = (case r of (Inl e, w) \<Rightarrow> (Inl e, w) | (Inr _, w) \<Rightarrow> f w)"

definition ca_load :: "('ca, 'cert) pki \<Rightarrow> string \<Rightarrow> files \<Rightarrow> string + 'ca" where
  "ca_load pki dir fs =
     (case (fs (cert_path dir), fs (cert_key_path dir)) of
        (Some cert, Some key) \<Rightarrow> issuer_from_pem pki cert key
      | _ \<Rightarrow> Inl (''Failed to load CA from '' @ cert_path dir))"

definition ca_is_installed :: "('ca, 'cert) pki \<Rightarrow> string \<Rightarrow> files \<Rightarrow> bool" where
  "ca_is_installed pki dir fs = (case ca_load pki dir fs of Inr _ \<Rightarrow> True | Inl _ \<Rightarrow> False)"

definition get_user_and_hostname :: "(string \<Rightarrow> string option) \<Rightarrow> string" where
  "get_user_and_hostname env =
     (let user = (case env ''USER'' of Some u \<Rightarrow> u @ ''@''
                  | None \<Rightarrow> (case env ''USERNAME'' of Some u \<Rightarrow> u @ ''@'' | None \<Rightarrow> []));
          host = (case env ''HOSTNAME'' of Some n \<Rightarrow> n
                  | None \<Rightarrow> (case env ''COMPUTERNAME'' of Some n \<Rightarrow> n | None \<Rightarrow> []))
      in user @ host)"

definition root_params :: "(string \<Rightarrow> string option) \<Rightarrow> cert_params" where
  "root_params env = \<lparr>subject_alt_names = [],
     dn_pushes = [(CommonName, CERT_NAME), (OrganizationName, ''SideDNS''), (OrganizationalUnitName, get_user_and_hostname env)],
     ca_path_len = Some 0, key_usages = [KeyCertSign, CrlSign], extended_key_usages = []\<rparr>"

definition domain_params :: "string list \<Rightarrow> cert_params" where
  "domain_params domains = \<lparr>subject_alt_names = domains, dn_pushes = map (Pair CommonName) domains,
     ca_path_len = None, key_usages = [DigitalSignature], extended_key_usages = [ServerAuth]\<rparr>"

definition ca_generate :: "('ca, 'cert) pki \<Rightarrow> (string \<Rightarrow> string option) \<Rightarrow> string + (ca_pem \<times> 'ca)" where
  "ca_generate pki env =
     (case generate_ca pki (root_params env) of
        Inl e \<Rightarrow> Inl e
      | Inr (c, k, ca) \<Rightarrow> Inr (\<lparr>pem_cert = c, pem_key = k\<rparr>, ca))"

definition ca_save :: "os \<Rightarrow> string \<Rightarrow> ca_pem \<Rightarrow> files \<Rightarrow> files outcome" where
  "ca_save h dir pem fs =
     (if \<not> can_create_dir h then (Inl ''create_dir_all'', fs)
      else andthen (write_file h (cert_path dir) (pem_cert pem) fs) (write_file h (cert_key_path dir) (pem_key pem)))"

definition ca_load_or_generate ::
    "os \<Rightarrow> ('ca, 'cert) pki \<Rightarrow> (string \<Rightarrow> string option) \<Rightarrow> string \<Rightarrow> files \<Rightarrow> (string + 'ca) \<times> files" where
  "ca_load_or_generate h pki env dir fs =
     (case ca_load pki dir fs of
        Inr ca \<Rightarrow> (Inr ca, fs)
      | Inl _ \<Rightarrow>
          (case ca_generate pki env of
             Inl e \<Rightarrow> (Inl e, fs)
           | Inr (pem, ca) \<Rightarrow>
               (case ca_save h dir pem fs of (Inl e, fs') \<Rightarrow> (Inl e, fs') | (Inr _, fs') \<Rightarrow> (Inr ca, fs'))))"

definition ca_uninstall :: "os \<Rightarrow> string \<Rightarrow> files \<Rightarrow> files outcome" where
  "ca_uninstall h dir fs = andthen (remove_file h (cert_path dir) fs) (remove_file h (cert_key_path dir))"

definition ca_sign :: "('ca, 'cert) pki \<Rightarrow> nat \<Rightarrow> 'ca \<Rightarrow> string list \<Rightarrow> string + 'cert" where
  "ca_sign pki k ca domains =
     (if domains = [] then Inl ''At least one domain required'' else signed_by pki k ca (domain_params domains))"

text \<open>The signing function the resolver is given.\<close>

definition resolver_sign :: "('ca, 'cert) pki \<Rightarrow> nat \<Rightarrow> ('ca, 'cert) sign" where
  "resolver_sign pki k ca ds = (case ca_sign pki k ca ds of Inr c \<Rightarrow> Some c | Inl _ \<Rightarrow> None)"

section \<open>Facts\<close>

lemma cert_paths_differ [simp]: "cert_path dir \<noteq> cert_key_path dir" "cert_key_path dir \<noteq> cert_path dir"
  by (simp_all add: cert_path_def cert_key_path_def)

lemma ca_save_ok:
  "ca_save h dir pem fs = (Inr u, fs') \<Longrightarrow> fs' = fs(cert_path dir \<mapsto> pem_cert pem, cert_key_path dir \<mapsto> pem_key pem)"
  by (auto simp: ca_save_def write_file_def andthen_def split: if_splits)

lemma ca_load_cong:
  "fs' (cert_path dir) = fs (cert_path dir) \<Longrightarrow> fs' (cert_key_path dir) = fs (cert_key_path dir) \<Longrightarrow>
   ca_load pki dir fs' = ca_load pki dir fs"
  by (simp add: ca_load_def)

lemma ca_load_saved:
  "ca_load pki dir (fs(cert_path dir \<mapsto> c, cert_key_path dir \<mapsto> k)) = issuer_from_pem pki c k"
  by (simp add: ca_load_def)

text \<open>What the PEM library promises of a generated authority: its two texts parse to it.\<close>

definition pem_round_trip :: "('ca, 'cert) pki \<Rightarrow> cert_params \<Rightarrow> bool" where
  "pem_round_trip pki params =
     (case generate_ca pki params of Inl _ \<Rightarrow> True | Inr (c, k, ca) \<Rightarrow> issuer_from_pem pki c k = Inr ca)"

lemma load_or_generate_cases:
  assumes "ca_load_or_generate h pki env dir fs = (Inr ca, fs')"
  shows "(ca_load pki dir fs = Inr ca \<and> fs' = fs) \<or>
    (\<exists>c k. generate_ca pki (root_params env) = Inr (c, k, ca) \<and>
      fs' = fs(cert_path dir \<mapsto> c, cert_key_path dir \<mapsto> k))"
proof (cases "ca_load pki dir fs")
  case (Inr x)
  with assms show ?thesis by (simp add: ca_load_or_generate_def)
next
  case (Inl e)
  with assms obtain pem where g: "ca_generate pki env = Inr (pem, ca)" and s: "ca_save h dir pem fs = (Inr (), fs')"
    by (auto simp: ca_load_or_generate_def split: sum.splits prod.splits)
  from g have "generate_ca pki (root_params env) = Inr (pem_cert pem, pem_key pem, ca)"
    by (auto simp: ca_generate_def split: sum.splits prod.splits)
  with ca_save_ok [OF s] show ?thesis by blast
qed

lemma load_or_generate_loads:
  assumes "ca_load_or_generate h pki env dir fs = (Inr ca, fs')" "pem_round_trip pki (root_params env)"
  shows "ca_load pki dir fs' = Inr ca"
  using load_or_generate_cases [OF assms(1)] assms(2) by (auto simp: pem_round_trip_def ca_load_saved)

lemma remove_file_ok: "remove_file h p fs = (Inr u, fs') \<longleftrightarrow> fs p \<noteq> None \<and> can_remove h p \<and> fs' = fs(p := None)"
  by (auto simp: remove_file_def)

section \<open>Properties\<close>

text \<open>
  C29. The authority is generated once. If load-or-generate succeeds, the authority it returns is
  the one on disk, a second call (whatever the environment) returns the same authority and
  writes nothing, and no file besides the certificate and the key has changed.
\<close>

theorem load_or_generate_stable:
  assumes "ca_load_or_generate h pki env dir fs = (Inr ca, fs')" "pem_round_trip pki (root_params env)"
  shows "ca_is_installed pki dir fs' \<and> ca_load pki dir fs' = Inr ca \<and>
    ca_load_or_generate h' pki env' dir fs' = (Inr ca, fs') \<and>
    fs'(cert_path dir := None, cert_key_path dir := None) = fs(cert_path dir := None, cert_key_path dir := None)"
proof -
  note l = load_or_generate_loads [OF assms]
  then have "ca_is_installed pki dir fs'" "ca_load_or_generate h' pki env' dir fs' = (Inr ca, fs')"
    by (simp_all add: ca_is_installed_def ca_load_or_generate_def)
  with l load_or_generate_cases [OF assms(1)] show ?thesis by (auto simp: fun_eq_iff)
qed

theorem load_or_generate_stable_witness:
  "\<exists>(pki :: (string, unit) pki) fs'.
     ca_load_or_generate all_ok pki Map.empty ''/d'' Map.empty = (Inr ''key'', fs') \<and>
     fs' (cert_path ''/d'') = Some ''cert'' \<and> ca_load_or_generate all_ok pki Map.empty ''/d'' fs' = (Inr ''key'', fs')"
proof -
  let ?pki = "\<lparr>issuer_from_pem = \<lambda>c k. Inr k, generate_ca = \<lambda>ps. Inr (''cert'', ''key'', ''key''),
     signed_by = \<lambda>k ca ps. Inr ()\<rparr> :: (string, unit) pki"
  let ?fs = "[cert_path ''/d'' \<mapsto> ''cert'', cert_key_path ''/d'' \<mapsto> ''key'']"
  have run: "ca_load_or_generate all_ok ?pki Map.empty ''/d'' Map.empty = (Inr ''key'', ?fs)"
    by (simp add: ca_load_or_generate_def ca_load_def ca_generate_def ca_save_def write_file_def andthen_def all_ok_def)
  moreover have "pem_round_trip ?pki (root_params Map.empty)" by (simp add: pem_round_trip_def)
  ultimately have "ca_load_or_generate all_ok ?pki Map.empty ''/d'' ?fs = (Inr ''key'', ?fs)"
    using load_or_generate_stable [of all_ok ?pki Map.empty "''/d''" Map.empty "''key''" ?fs all_ok Map.empty] by blast
  with run show ?thesis by (intro exI [of _ ?pki] exI [of _ ?fs]) simp
qed

text \<open>
  Uninstalling is all or nothing as far as the daemon can see: on success both files are
  gone and nothing else changed; on failure either nothing changed, or the certificate is gone
  and the authority no longer loads.
\<close>

theorem ca_uninstall_outcome:
  "case ca_uninstall h dir fs of
     (Inr u, fs') \<Rightarrow> fs' = fs(cert_path dir := None, cert_key_path dir := None) \<and> \<not> ca_is_installed pki dir fs'
   | (Inl e, fs') \<Rightarrow> fs' = fs \<or> fs' = fs(cert_path dir := None) \<and> \<not> ca_is_installed pki dir fs'"
  by (auto simp: ca_uninstall_def andthen_def remove_file_def ca_is_installed_def ca_load_def split: sum.split)

end
