(* ===== verification/Trust.thy ===== *)
theory Trust
  imports Ca
begin

text \<open>
  The trust stores the root certificate is installed in (core/src/certs/trust): the system's on
  each platform, Java's and the browsers'.

  External programs are a function \<open>cmd\<close> from an argument vector and the state outside the files
  to an exit status (or a failure to start) and a new state.
\<close>

section \<open>The machine\<close>

record 'x machine =
  m_files :: files
  m_dirs :: "string \<Rightarrow> bool"
  m_env :: "string \<Rightarrow> string option"
  m_path :: "string list"
  m_ext :: 'x

type_synonym 'x command = "string list \<Rightarrow> 'x \<Rightarrow> (string + bool) \<times> 'x"

definition run_cmd :: "'x command \<Rightarrow> string list \<Rightarrow> 'x machine \<Rightarrow> (string + bool) \<times> 'x machine" where
  "run_cmd cmd args m = (let (r, x) = cmd args (m_ext m) in (r, m\<lparr>m_ext := x\<rparr>))"

definition exists_path :: "string \<Rightarrow> 'x machine \<Rightarrow> bool" where
  "exists_path p m = (m_files m p \<noteq> None \<or> m_dirs m p)"

text \<open>A program that must exit with success, else the message is the error.\<close>

definition ensure_cmd :: "'x command \<Rightarrow> string list \<Rightarrow> string \<Rightarrow> 'x machine \<Rightarrow> 'x machine outcome" where
  "ensure_cmd cmd args msg m =
     (case run_cmd cmd args m of
        (Inl e, m') \<Rightarrow> (Inl e, m')
      | (Inr ok, m') \<Rightarrow> (if ok then Inr () else Inl msg, m'))"

text \<open>A program whose exit status is ignored, but which must start.\<close>

definition try_cmd :: "'x command \<Rightarrow> string list \<Rightarrow> 'x machine \<Rightarrow> 'x machine outcome" where
  "try_cmd cmd args m = (case run_cmd cmd args m of (Inl e, m') \<Rightarrow> (Inl e, m') | (Inr ok, m') \<Rightarrow> (Inr (), m'))"

text \<open>Whether a program started and exited with success.\<close>

definition cmd_ok :: "'x command \<Rightarrow> string list \<Rightarrow> 'x machine \<Rightarrow> bool" where
  "cmd_ok cmd args m = (fst (cmd args (m_ext m)) = Inr True)"

definition copy_file :: "os \<Rightarrow> string \<Rightarrow> string \<Rightarrow> 'x machine \<Rightarrow> 'x machine outcome" where
  "copy_file h src dst m =
     (case m_files m src of
        Some c \<Rightarrow> if can_write h dst then (Inr (), m\<lparr>m_files := (m_files m)(dst \<mapsto> c)\<rparr>) else (Inl ''copy'', m)
      | None \<Rightarrow> (Inl ''copy'', m))"

definition remove_path :: "os \<Rightarrow> string \<Rightarrow> 'x machine \<Rightarrow> 'x machine outcome" where
  "remove_path h p m =
     (if m_files m p \<noteq> None \<and> can_remove h p then (Inr (), m\<lparr>m_files := (m_files m)(p := None)\<rparr>)
      else (Inl ''remove_file'', m))"

text \<open>What a program is called on a platform.\<close>

definition exe_candidates :: "platform \<Rightarrow> string \<Rightarrow> string list" where
  "exe_candidates pf name = (if pf = Windows then [name, name @ ''.exe''] else [name])"

section \<open>The system store on Linux\<close>

definition debian_dir :: string where "debian_dir = ''/usr/local/share/ca-certificates''"
definition fedora_dir :: string where "fedora_dir = ''/etc/pki/ca-trust/source/anchors''"
definition arch_dir :: string where "arch_dir = ''/etc/ca-certificates/trust-source''"

definition linux_is_installed :: "'x command \<Rightarrow> string \<Rightarrow> 'x machine \<Rightarrow> bool" where
  "linux_is_installed cmd cert m =
     (cmd_ok cmd [''openssl'', ''verify'', ''-CAfile'', ''/etc/ssl/certs/ca-certificates.crt'', cert] m \<or>
      exists_path (debian_dir @ ''/sidedns.crt'') m \<or>
      exists_path (fedora_dir @ ''/sidedns.crt'') m \<or>
      exists_path (arch_dir @ ''/sidedns.pem'') m)"

definition linux_install :: "os \<Rightarrow> 'x command \<Rightarrow> string \<Rightarrow> 'x machine \<Rightarrow> 'x machine outcome" where
  "linux_install h cmd cert m =
     (if exists_path debian_dir m
      then andthen (copy_file h cert (debian_dir @ ''/sidedns.crt'') m)
        (ensure_cmd cmd [''sudo'', ''update-ca-certificates''] ''update-ca-certificates failed'')
      else if exists_path fedora_dir m
      then andthen (copy_file h cert (fedora_dir @ ''/sidedns.crt'') m)
        (ensure_cmd cmd [''sudo'', ''update-ca-trust'', ''extract''] ''update-ca-trust extract failed'')
      else if exists_path arch_dir m
      then andthen (copy_file h cert (arch_dir @ ''/anchors/sidedns.pem'') m)
        (ensure_cmd cmd [''sudo'', ''trust'', ''anchor'', ''--store'', cert] ''trust anchor --store failed'')
      else (Inl ''unsupported Linux distribution'', m))"

definition linux_uninstall :: "os \<Rightarrow> 'x command \<Rightarrow> string \<Rightarrow> 'x machine \<Rightarrow> 'x machine outcome" where
  "linux_uninstall h cmd cert m =
     (if exists_path (debian_dir @ ''/sidedns.crt'') m
      then andthen (remove_path h (debian_dir @ ''/sidedns.crt'') m) (try_cmd cmd [''sudo'', ''update-ca-certificates''])
      else if exists_path (fedora_dir @ ''/sidedns.crt'') m
      then andthen (remove_path h (fedora_dir @ ''/sidedns.crt'') m)
        (try_cmd cmd [''sudo'', ''update-ca-trust'', ''extract''])
      else if exists_path (arch_dir @ ''/anchors/sidedns.pem'') m
      then andthen (remove_path h (arch_dir @ ''/anchors/sidedns.pem'') m)
        (try_cmd cmd [''sudo'', ''trust'', ''anchor'', ''--remove'', arch_dir @ ''/anchors/sidedns.pem''])
      else (Inr (), m))"

section \<open>The system store on other platforms\<close>

text \<open>
  The digest functions and the text a program prints are parameters. The fingerprint fails if
  the file is no certificate; it is the digest in upper case hexadecimal digits.
\<close>

record digests =
  der_from_pem :: "string \<Rightarrow> u8 list option"
  sha1 :: "u8 list \<Rightarrow> u8 list"

type_synonym 'x stdout = "string list \<Rightarrow> 'x \<Rightarrow> string option"

definition upper_digit :: "nat \<Rightarrow> char" where
  "upper_digit n = char_of (if n < 10 then 48 + n else 55 + n)"

definition hex_byte :: "u8 \<Rightarrow> string" where
  "hex_byte b = [upper_digit (unat b div 16), upper_digit (unat b mod 16)]"

definition sha1_fingerprint :: "digests \<Rightarrow> string \<Rightarrow> 'x machine \<Rightarrow> string option" where
  "sha1_fingerprint dg cert m =
     (case Option.bind (m_files m cert) (der_from_pem dg) of
        None \<Rightarrow> None
      | Some der \<Rightarrow> Some (concat (map hex_byte (sha1 dg der))))"

definition system_keychain :: string where
  "system_keychain = ''/Library/Keychains/System.keychain''"

definition macos_is_installed :: "digests \<Rightarrow> 'x stdout \<Rightarrow> string \<Rightarrow> 'x machine \<Rightarrow> bool" where
  "macos_is_installed dg out cert m =
     (case sha1_fingerprint dg cert m of
        None \<Rightarrow> False
      | Some f \<Rightarrow>
          (case out [''security'', ''find-certificate'', ''-a'', ''-Z'', system_keychain] (m_ext m) of
             Some text \<Rightarrow> contains text f
           | None \<Rightarrow> False))"

definition macos_install :: "'x command \<Rightarrow> string \<Rightarrow> 'x machine \<Rightarrow> 'x machine outcome" where
  "macos_install cmd cert m =
     ensure_cmd cmd [''sudo'', ''security'', ''add-trusted-cert'', ''-d'', ''-r'', ''trustRoot'', ''-k'', system_keychain, cert]
       ''security add-trusted-cert failed'' m"

definition macos_uninstall :: "'x command \<Rightarrow> string \<Rightarrow> 'x machine \<Rightarrow> 'x machine outcome" where
  "macos_uninstall cmd cert m =
     ensure_cmd cmd [''sudo'', ''security'', ''remove-trusted-cert'', ''-d'', cert] ''security remove-trusted-cert failed'' m"

definition windows_is_installed :: "'x stdout \<Rightarrow> 'x machine \<Rightarrow> bool" where
  "windows_is_installed out m =
     (case out [''certutil'', ''-store'', ''Root''] (m_ext m) of Some text \<Rightarrow> contains text ''SideDNS'' | None \<Rightarrow> False)"

definition windows_install :: "'x command \<Rightarrow> string \<Rightarrow> 'x machine \<Rightarrow> 'x machine outcome" where
  "windows_install cmd cert m =
     ensure_cmd cmd [''certutil.exe'', ''-addstore'', ''-f'', ''ROOT'', cert] ''certutil -addstore failed'' m"

definition windows_uninstall :: "digests \<Rightarrow> 'x command \<Rightarrow> string \<Rightarrow> 'x machine \<Rightarrow> 'x machine outcome" where
  "windows_uninstall dg cmd cert m =
     (case sha1_fingerprint dg cert m of
        None \<Rightarrow> (Inl ''fingerprint'', m)
      | Some f \<Rightarrow> ensure_cmd cmd [''certutil'', ''-delstore'', ''ROOT'', f] ''certutil -delstore failed'' m)"

text \<open>The platforms without an implementation, and the choice of the build.\<close>

definition other_is_installed :: "string \<Rightarrow> 'x machine \<Rightarrow> bool" where
  "other_is_installed cert m = False"

definition other_install :: "string \<Rightarrow> 'x machine \<Rightarrow> 'x machine outcome" where
  "other_install cert m = (Inl ''system trust store installation not supported on this platform'', m)"

definition other_uninstall :: "string \<Rightarrow> 'x machine \<Rightarrow> 'x machine outcome" where
  "other_uninstall cert m = (Inr (), m)"

definition system_is_available :: bool where
  "system_is_available = True"

definition system_is_installed :: "platform \<Rightarrow> 'x command \<Rightarrow> 'x stdout \<Rightarrow> digests \<Rightarrow> string \<Rightarrow> 'x machine \<Rightarrow> bool" where
  "system_is_installed pf cmd out dg cert m =
     (case pf of
        Linux \<Rightarrow> linux_is_installed cmd cert m
      | MacOs \<Rightarrow> macos_is_installed dg out cert m
      | Windows \<Rightarrow> windows_is_installed out m
      | OtherOs \<Rightarrow> other_is_installed cert m)"

definition system_install :: "platform \<Rightarrow> os \<Rightarrow> 'x command \<Rightarrow> string \<Rightarrow> 'x machine \<Rightarrow> 'x machine outcome" where
  "system_install pf h cmd cert m =
     (case pf of
        Linux \<Rightarrow> linux_install h cmd cert m
      | MacOs \<Rightarrow> macos_install cmd cert m
      | Windows \<Rightarrow> windows_install cmd cert m
      | OtherOs \<Rightarrow> other_install cert m)"

definition system_uninstall :: "platform \<Rightarrow> os \<Rightarrow> 'x command \<Rightarrow> digests \<Rightarrow> string \<Rightarrow> 'x machine \<Rightarrow> 'x machine outcome" where
  "system_uninstall pf h cmd dg cert m =
     (case pf of
        Linux \<Rightarrow> linux_uninstall h cmd cert m
      | MacOs \<Rightarrow> macos_uninstall cmd cert m
      | Windows \<Rightarrow> windows_uninstall dg cmd cert m
      | OtherOs \<Rightarrow> other_uninstall cert m)"

section \<open>The Java store\<close>

definition ALIAS :: string where
  "ALIAS = ''sidedns-local-ca''"

definition find_map :: "('a \<Rightarrow> 'b option) \<Rightarrow> 'a list \<Rightarrow> 'b option" where
  "find_map f xs = (case List.map_filter f xs of [] \<Rightarrow> None | y # _ \<Rightarrow> Some y)"

definition existing :: "'x machine \<Rightarrow> string \<Rightarrow> string option" where
  "existing m p = (if exists_path p m then Some p else None)"

text \<open>The program is looked for under the Java home first, then on the path.\<close>

definition keytool_path :: "platform \<Rightarrow> 'x machine \<Rightarrow> string option" where
  "keytool_path pf m =
     (case Option.bind (m_env m ''JAVA_HOME'') (\<lambda>home. existing m (join_dir pf (join_dir pf home ''bin'') ''keytool'')) of
        Some p \<Rightarrow> Some p
      | None \<Rightarrow> find_map (\<lambda>dir. find_map (\<lambda>name. existing m (join_dir pf dir name)) (exe_candidates pf ''keytool'')) (m_path m))"

definition cacerts_path :: "platform \<Rightarrow> 'x machine \<Rightarrow> string option" where
  "cacerts_path pf m =
     (case m_env m ''JAVA_HOME'' of
        Some home \<Rightarrow>
          find_map (\<lambda>rel. existing m (join_dir pf home rel)) [''lib/security/cacerts'', ''jre/lib/security/cacerts'']
      | None \<Rightarrow> None)"

definition java_is_available :: "platform \<Rightarrow> 'x machine \<Rightarrow> bool" where
  "java_is_available pf m = (keytool_path pf m \<noteq> None \<and> cacerts_path pf m \<noteq> None)"

definition java_is_installed :: "platform \<Rightarrow> 'x command \<Rightarrow> 'x machine \<Rightarrow> bool" where
  "java_is_installed pf cmd m =
     (case (keytool_path pf m, cacerts_path pf m) of
        (Some keytool, Some cacerts) \<Rightarrow>
          cmd_ok cmd [keytool, ''-list'', ''-keystore'', cacerts, ''-storepass'', ''changeit'', ''-alias'', ALIAS] m
      | _ \<Rightarrow> False)"

definition java_install :: "platform \<Rightarrow> 'x command \<Rightarrow> string \<Rightarrow> 'x machine \<Rightarrow> 'x machine outcome" where
  "java_install pf cmd cert m =
     (case keytool_path pf m of
        None \<Rightarrow> (Inl ''keytool not found'', m)
      | Some keytool \<Rightarrow>
          (case cacerts_path pf m of
             None \<Rightarrow> (Inl ''Java cacerts file not found'', m)
           | Some cacerts \<Rightarrow>
               ensure_cmd cmd [keytool, ''-importcert'', ''-noprompt'', ''-trustcacerts'', ''-alias'', ALIAS,
                 ''-keystore'', cacerts, ''-storepass'', ''changeit'', ''-file'', cert] ''keytool -importcert failed'' m))"

definition java_uninstall :: "platform \<Rightarrow> 'x command \<Rightarrow> 'x machine \<Rightarrow> 'x machine outcome" where
  "java_uninstall pf cmd m =
     (case (keytool_path pf m, cacerts_path pf m) of
        (Some keytool, Some cacerts) \<Rightarrow>
          if \<not> java_is_installed pf cmd m then (Inr (), m)
          else ensure_cmd cmd [keytool, ''-delete'', ''-alias'', ALIAS, ''-keystore'', cacerts,
                 ''-storepass'', ''changeit''] ''keytool -delete failed'' m
      | _ \<Rightarrow> (Inr (), m))"

section \<open>The NSS store\<close>

text \<open>\<^verbatim>\<open>glob\<close> expands a pattern to paths, or refuses the pattern.\<close>

type_synonym glob = "string \<Rightarrow> string list option"

definition which :: "platform \<Rightarrow> string \<Rightarrow> 'x machine \<Rightarrow> string option" where
  "which pf name m =
     find_map (\<lambda>dir. find_map (\<lambda>n. let c = join_dir pf dir n in if m_files m c \<noteq> None then Some c else None)
       (exe_candidates pf name)) (m_path m)"

definition certutil_path :: "platform \<Rightarrow> 'x machine \<Rightarrow> string option" where
  "certutil_path pf m = which pf ''certutil'' m"

definition nss_is_available :: "platform \<Rightarrow> 'x machine \<Rightarrow> bool" where
  "nss_is_available pf m = (certutil_path pf m \<noteq> None)"

text \<open>The messages have the dash U+2014.\<close>

definition em_dash :: string where
  "em_dash = [char_of (226 :: nat), char_of (128 :: nat), char_of (148 :: nat)]"

definition certutil_missing_hint :: "platform \<Rightarrow> string" where
  "certutil_missing_hint pf =
     (case pf of
        Linux \<Rightarrow> ''certutil not found '' @ em_dash @
          '' install with: sudo apt install libnss3-tools OR sudo dnf install nss-tools OR sudo pacman -S nss''
      | MacOs \<Rightarrow> ''certutil not found '' @ em_dash @ '' install with: brew install nss''
      | Windows \<Rightarrow> ''certutil not found on Windows '' @ em_dash @ '' NSS trust store not supported''
      | OtherOs \<Rightarrow> ''certutil not found'')"

definition has_nss_db :: "platform \<Rightarrow> string \<Rightarrow> 'x machine \<Rightarrow> bool" where
  "has_nss_db pf dir m = (exists_path (join_dir pf dir ''cert9.db'') m \<or> exists_path (join_dir pf dir ''cert8.db'') m)"

text \<open>The home directory is empty if unknown, and so is a missing variable on Windows.\<close>

definition nss_profile_patterns :: "platform \<Rightarrow> string \<Rightarrow> 'x machine \<Rightarrow> string list" where
  "nss_profile_patterns pf home m =
     (case pf of
        Linux \<Rightarrow>
          [home @ ''/.mozilla/firefox/*.default*'', home @ ''/.mozilla/firefox/*.dev-edition-default*'',
           home @ ''/snap/firefox/common/.mozilla/firefox/*.default*'',
           ''/var/snap/firefox/common/.mozilla/firefox/*.default*'']
      | MacOs \<Rightarrow> [home @ ''/Library/Application Support/Firefox/Profiles/*'']
      | Windows \<Rightarrow>
          [(case m_env m ''APPDATA'' of Some d \<Rightarrow> d | None \<Rightarrow> []) @ backslash # ''Mozilla'' @ backslash # ''Firefox'' @
           backslash # ''Profiles'' @ backslash # ''*'']
      | OtherOs \<Rightarrow> [])"

definition nss_extra_dirs :: "platform \<Rightarrow> string \<Rightarrow> string list" where
  "nss_extra_dirs pf home =
     (if pf = Linux
      then map (\<lambda>p. home @ ''/'' @ p)
        [''.pki/nssdb'', ''snap/chromium/current/.pki/nssdb'', ''.config/google-chrome/NSSCertificateDatabase'',
         ''.config/chromium/NSSCertificateDatabase'', ''*/.zen'', ''*/.waterfox'', ''*/.librewolf'', ''*/.var/app'', ''*/snap'']
      else [])"

definition nss_profiles :: "platform \<Rightarrow> glob \<Rightarrow> string \<Rightarrow> 'x machine \<Rightarrow> string list" where
  "nss_profiles pf gl home m =
     concat (map (\<lambda>pat. case gl pat of None \<Rightarrow> [] | Some es \<Rightarrow> filter (\<lambda>e. m_dirs m e \<and> has_nss_db pf e m) es)
       (nss_profile_patterns pf home m @ nss_extra_dirs pf home))"

definition nss_check :: "string \<Rightarrow> string \<Rightarrow> string list" where
  "nss_check certutil profile = [certutil, ''-V'', ''-u'', ''L'', ''-d'', profile, ''-n'', CERT_NAME]"

definition nss_add :: "string \<Rightarrow> string \<Rightarrow> string \<Rightarrow> string list" where
  "nss_add certutil cert profile = [certutil, ''-A'', ''-d'', profile, ''-t'', ''C,,'', ''-n'', CERT_NAME, ''-i'', cert]"

definition nss_delete :: "string \<Rightarrow> string \<Rightarrow> string list" where
  "nss_delete certutil profile = [certutil, ''-D'', ''-d'', profile, ''-n'', CERT_NAME]"

definition nss_is_installed :: "platform \<Rightarrow> 'x command \<Rightarrow> glob \<Rightarrow> string \<Rightarrow> 'x machine \<Rightarrow> bool" where
  "nss_is_installed pf cmd gl home m =
     (case certutil_path pf m of
        None \<Rightarrow> False
      | Some certutil \<Rightarrow> list_ex (\<lambda>p. cmd_ok cmd (nss_check certutil p) m) (nss_profiles pf gl home m))"

text \<open>Adding to each profile in turn: a refusal is a warning, a program that does not start an error.\<close>

fun nss_add_all :: "'x command \<Rightarrow> string \<Rightarrow> string \<Rightarrow> string list \<Rightarrow> bool \<Rightarrow> 'x machine \<Rightarrow> (string + bool) \<times> 'x machine" where
  "nss_add_all cmd certutil cert [] any_ok m = (Inr any_ok, m)"
| "nss_add_all cmd certutil cert (p # ps) any_ok m =
     (case run_cmd cmd (nss_add certutil cert p) m of
        (Inl e, m') \<Rightarrow> (Inl e, m')
      | (Inr ok, m') \<Rightarrow> nss_add_all cmd certutil cert ps (any_ok \<or> ok) m')"

definition nss_install :: "platform \<Rightarrow> 'x command \<Rightarrow> glob \<Rightarrow> string \<Rightarrow> string \<Rightarrow> 'x machine \<Rightarrow> 'x machine outcome" where
  "nss_install pf cmd gl home cert m =
     (case certutil_path pf m of
        None \<Rightarrow> (Inl (certutil_missing_hint pf), m)
      | Some certutil \<Rightarrow>
          (case nss_profiles pf gl home m of
             [] \<Rightarrow> (Inr (), m)
           | ps \<Rightarrow>
               (case nss_add_all cmd certutil cert ps False m of
                  (Inl e, m') \<Rightarrow> (Inl e, m')
                | (Inr any_ok, m') \<Rightarrow> (if any_ok then Inr () else Inl ''NSS install failed in all profiles'', m'))))"

fun nss_remove_all :: "'x command \<Rightarrow> string \<Rightarrow> string list \<Rightarrow> 'x machine \<Rightarrow> 'x machine outcome" where
  "nss_remove_all cmd certutil [] m = (Inr (), m)"
| "nss_remove_all cmd certutil (p # ps) m =
     (case run_cmd cmd (nss_check certutil p) m of
        (Inl e, m1) \<Rightarrow> (Inl e, m1)
      | (Inr present, m1) \<Rightarrow>
          if \<not> present then nss_remove_all cmd certutil ps m1
          else (case run_cmd cmd (nss_delete certutil p) m1 of
                  (Inl e, m2) \<Rightarrow> (Inl e, m2)
                | (Inr _, m2) \<Rightarrow> nss_remove_all cmd certutil ps m2))"

definition nss_uninstall :: "platform \<Rightarrow> 'x command \<Rightarrow> glob \<Rightarrow> string \<Rightarrow> 'x machine \<Rightarrow> 'x machine outcome" where
  "nss_uninstall pf cmd gl home m =
     (case certutil_path pf m of
        None \<Rightarrow> (Inr (), m)
      | Some certutil \<Rightarrow> nss_remove_all cmd certutil (nss_profiles pf gl home m) m)"

section \<open>The contract of a trust store\<close>

text \<open>
  Installing and uninstalling write only the store's own files and leave the directories and
  the environment alone; what they do outside the files is up to the programs they run.
\<close>

text \<open>Only files of the given set are written or removed.\<close>

definition writes_only :: "string set \<Rightarrow> 'x machine \<Rightarrow> 'x machine \<Rightarrow> bool" where
  "writes_only ps m m' = ((\<forall>p. p \<notin> ps \<longrightarrow> m_files m' p = m_files m p) \<and> m_dirs m' = m_dirs m \<and>
     m_env m' = m_env m \<and> m_path m' = m_path m)"

locale trust_store =
  fixes install :: "'x machine \<Rightarrow> 'x machine outcome" and uninstall :: "'x machine \<Rightarrow> 'x machine outcome"
    and own :: "string set"
  assumes install_files: "p \<notin> own \<Longrightarrow> m_files (snd (install m)) p = m_files m p"
    and uninstall_files: "p \<notin> own \<Longrightarrow> m_files (snd (uninstall m)) p = m_files m p"
    and install_machine: "m_dirs (snd (install m)) = m_dirs m \<and> m_env (snd (install m)) = m_env m \<and> m_path (snd (install m)) = m_path m"
    and uninstall_machine: "m_dirs (snd (uninstall m)) = m_dirs m \<and> m_env (snd (uninstall m)) = m_env m \<and> m_path (snd (uninstall m)) = m_path m"
begin

lemma confined:
  assumes "own \<subseteq> ps"
  shows "writes_only ps m (snd (install m))" "writes_only ps m (snd (uninstall m))"
proof -
  from assms have "p \<notin> ps \<Longrightarrow> p \<notin> own" for p by blast
  then show "writes_only ps m (snd (install m))" "writes_only ps m (snd (uninstall m))"
    by (simp_all add: writes_only_def install_files uninstall_files install_machine uninstall_machine)
qed

end

text \<open>A program leaves the modelled part of the machine alone.\<close>

definition only_ext :: "'x machine \<Rightarrow> 'x machine \<Rightarrow> bool" where
  "only_ext m m' = (\<exists>x. m' = m\<lparr>m_ext := x\<rparr>)"

lemma only_ext_refl [simp]: "only_ext m m"
  unfolding only_ext_def by (rule exI [of _ "m_ext m"]) simp

lemma only_ext_trans: "only_ext m m' \<Longrightarrow> only_ext m' m'' \<Longrightarrow> only_ext m m''"
  by (auto simp: only_ext_def)

lemma only_extD:
  "only_ext m m' \<Longrightarrow> m_files m' = m_files m \<and> m_dirs m' = m_dirs m \<and> m_env m' = m_env m \<and> m_path m' = m_path m"
  by (auto simp: only_ext_def)

lemma only_ext_run: "run_cmd cmd args m = (r, m') \<Longrightarrow> only_ext m m'"
  by (auto simp: run_cmd_def only_ext_def split_beta Let_def)

lemma only_ext_ensure [simp]: "only_ext m (snd (ensure_cmd cmd args msg m))"
  by (auto simp: ensure_cmd_def split: prod.split sum.split dest: only_ext_run)

lemma only_ext_try [simp]: "only_ext m (snd (try_cmd cmd args m))"
  by (auto simp: try_cmd_def split: prod.split sum.split dest: only_ext_run)

lemma only_ext_add_all [simp]: "only_ext m (snd (nss_add_all cmd cu cert ps b m))"
proof (induction ps arbitrary: b m)
  case (Cons p ps)
  then show ?case
    by (auto split: prod.split sum.split dest: only_ext_run intro: only_ext_trans)
qed simp

lemma only_ext_remove_all [simp]: "only_ext m (snd (nss_remove_all cmd cu ps m))"
proof (induction ps arbitrary: m)
  case (Cons p ps)
  then show ?case
    by (auto split: prod.split sum.split dest!: only_ext_run intro: only_ext_trans)
qed simp

lemma nss_only_ext:
  "only_ext m (snd (nss_install pf cmd gl home cert m))" "only_ext m (snd (nss_uninstall pf cmd gl home m))"
proof -
  have "only_ext m m'" if "nss_add_all cmd cu cert ps b m = (r, m')" for cu ps b r m'
    using that only_ext_add_all [of m cmd cu cert ps b] by simp
  then show "only_ext m (snd (nss_install pf cmd gl home cert m))"
    by (auto simp: nss_install_def simp del: nss_add_all.simps split: option.split list.split prod.split sum.split)
qed (simp add: nss_uninstall_def split: option.split)

lemma java_only_ext:
  "only_ext m (snd (java_install pf cmd cert m))" "only_ext m (snd (java_uninstall pf cmd m))"
  by (simp_all add: java_install_def java_uninstall_def split: option.split)

lemmas ext_files = only_extD [OF only_ext_ensure, THEN conjunct1] only_extD [OF only_ext_try, THEN conjunct1]
  only_extD [OF nss_only_ext(1), THEN conjunct1] only_extD [OF nss_only_ext(2), THEN conjunct1]
  only_extD [OF java_only_ext(1), THEN conjunct1] only_extD [OF java_only_ext(2), THEN conjunct1]

interpretation nss: trust_store "nss_install pf cmd gl home cert" "nss_uninstall pf cmd gl home" "{}" for pf cmd gl home cert
  by unfold_locales (simp_all add: only_extD [OF nss_only_ext(1)] only_extD [OF nss_only_ext(2)])

interpretation java: trust_store "java_install pf cmd cert" "java_uninstall pf cmd" "{}" for pf cmd cert
  by unfold_locales (simp_all add: only_extD [OF java_only_ext(1)] only_extD [OF java_only_ext(2)])

interpretation macos_store: trust_store "macos_install cmd cert" "macos_uninstall cmd cert" "{}" for cmd cert
  by unfold_locales (simp_all add: macos_install_def macos_uninstall_def only_extD [OF only_ext_ensure])

lemma windows_only_ext: "only_ext m (snd (windows_uninstall dg cmd cert m))"
  by (simp add: windows_uninstall_def split: option.split)

interpretation windows_store: trust_store "windows_install cmd cert" "windows_uninstall dg cmd cert" "{}" for cmd cert dg
  by unfold_locales (simp_all add: windows_install_def only_extD [OF only_ext_ensure] only_extD [OF windows_only_ext])

text \<open>The files of the Linux store.\<close>

definition linux_own :: "string set" where
  "linux_own = {debian_dir @ ''/sidedns.crt'', fedora_dir @ ''/sidedns.crt'', arch_dir @ ''/anchors/sidedns.pem''}"

lemma linux_dests [simp]:
  "debian_dir @ ''/sidedns.crt'' \<in> linux_own" "fedora_dir @ ''/sidedns.crt'' \<in> linux_own"
  "arch_dir @ ''/anchors/sidedns.pem'' \<in> linux_own"
  by (simp_all add: linux_own_def)

lemma writes_only_refl [simp]: "writes_only ps m m"
  by (simp add: writes_only_def)

lemma writes_only_ext: "writes_only ps m m' \<Longrightarrow> only_ext m' m'' \<Longrightarrow> writes_only ps m m''"
  by (auto simp: writes_only_def only_ext_def)

lemma writes_only_andthen:
  "writes_only ps m (snd r) \<Longrightarrow> (\<And>w. only_ext w (snd (f w))) \<Longrightarrow> writes_only ps m (snd (andthen r f))"
  by (cases r; cases "fst r") (auto simp: andthen_def intro: writes_only_ext)

lemma writes_only_copy: "dst \<in> ps \<Longrightarrow> writes_only ps m (snd (copy_file h src dst m))"
  by (auto simp: copy_file_def writes_only_def split: option.split)

lemma writes_only_remove: "p \<in> ps \<Longrightarrow> writes_only ps m (snd (remove_path h p m))"
  by (auto simp: remove_path_def writes_only_def)

lemma linux_writes_only:
  "writes_only linux_own m (snd (linux_install h cmd cert m))"
  "writes_only linux_own m (snd (linux_uninstall h cmd cert m))"
  by (simp_all add: linux_install_def linux_uninstall_def writes_only_andthen writes_only_copy writes_only_remove)

interpretation linux_store: trust_store "linux_install h cmd cert" "linux_uninstall h cmd cert" linux_own for h cmd cert
  by unfold_locales (simp_all add: linux_writes_only [unfolded writes_only_def])

interpretation other_store: trust_store "other_install cert" "other_uninstall cert" "{}" for cert
  by unfold_locales (simp_all add: other_install_def other_uninstall_def)

lemma system_writes_only:
  "writes_only linux_own m (snd (system_install pf h cmd cert m))"
  "writes_only linux_own m (snd (system_uninstall pf h cmd dg cert m))"
  by (simp_all add: system_install_def system_uninstall_def linux_store.confined macos_store.confined
    windows_store.confined other_store.confined split: platform.split)

interpretation system_store: trust_store "system_install pf h cmd cert" "system_uninstall pf h cmd dg cert" linux_own
    for pf h cmd dg cert
  by unfold_locales (simp_all add: system_writes_only [unfolded writes_only_def])

section \<open>Properties\<close>

lemma linux_paths [simp]:
  "debian_dir \<noteq> fedora_dir" "arch_dir @ ''/anchors/sidedns.pem'' \<noteq> arch_dir @ ''/sidedns.pem''"
  by (simp_all add: debian_dir_def fedora_dir_def)

lemma linux_dest_paths:
  "debian_dir @ ''/sidedns.crt'' \<noteq> arch_dir @ ''/anchors/sidedns.pem''"
  "fedora_dir @ ''/sidedns.crt'' \<noteq> arch_dir @ ''/anchors/sidedns.pem''"
  "arch_dir @ ''/sidedns.pem'' \<noteq> arch_dir @ ''/anchors/sidedns.pem''"
  by (simp_all add: debian_dir_def fedora_dir_def arch_dir_def)

lemma andthen_ok: "andthen r f = (Inr u, w') \<Longrightarrow> \<exists>w. r = (Inr (), w) \<and> f w = (Inr u, w')"
  by (cases r; cases "fst r") (auto simp: andthen_def)

lemma copy_file_ok:
  "copy_file h src dst m = (Inr u, m') \<Longrightarrow> \<exists>c. m_files m src = Some c \<and> m' = m\<lparr>m_files := (m_files m)(dst \<mapsto> c)\<rparr>"
  by (auto simp: copy_file_def split: option.splits if_splits)

text \<open>
  On a Debian system a successful installation copies the certificate to the
  system's directory, is then seen as installed, and uninstalling (if the program that
  refreshes the store starts) removes exactly that copy.
\<close>

theorem linux_install_detected:
  assumes "linux_install h cmd cert m = (Inr u, m')" "exists_path debian_dir m"
  shows "m_files m' (debian_dir @ ''/sidedns.crt'') = m_files m cert \<and> m_files m cert \<noteq> None \<and>
    linux_is_installed cmd cert m' \<and>
    (\<forall>v m''. linux_uninstall h cmd cert m' = (Inr v, m'') \<longrightarrow> m_files m'' = (m_files m')(debian_dir @ ''/sidedns.crt'' := None))"
proof -
  let ?dst = "debian_dir @ ''/sidedns.crt''"
  from assms obtain m1 where m1: "copy_file h cert ?dst m = (Inr (), m1)"
    and m': "ensure_cmd cmd [''sudo'', ''update-ca-certificates''] ''update-ca-certificates failed'' m1 = (Inr u, m')"
    by (auto simp: linux_install_def dest: andthen_ok)
  from m' only_ext_ensure [of m1 cmd "[''sudo'', ''update-ca-certificates'']" "''update-ca-certificates failed''"]
  have f: "m_files m' = m_files m1" by (simp add: only_extD)
  obtain c where c: "m_files m cert = Some c" "m_files m' = (m_files m)(?dst \<mapsto> c)"
    using copy_file_ok [OF m1] f by auto
  then have ex: "exists_path ?dst m'" by (simp add: exists_path_def)
  have "m_files m'' = (m_files m')(?dst := None)" if "linux_uninstall h cmd cert m' = (Inr v, m'')" for v m''
  proof -
    from that ex obtain m2 where "remove_path h ?dst m' = (Inr (), m2)"
      and t: "try_cmd cmd [''sudo'', ''update-ca-certificates''] m2 = (Inr v, m'')"
      by (auto simp: linux_uninstall_def dest: andthen_ok)
    moreover from t have "m_files m'' = m_files m2"
      using only_ext_try [of m2 cmd "[''sudo'', ''update-ca-certificates'']"] by (simp add: only_extD)
    ultimately show ?thesis by (auto simp: remove_path_def split: if_splits)
  qed
  moreover from ex have "linux_is_installed cmd cert m'" by (simp add: linux_is_installed_def)
  moreover from c have "m_files m' ?dst = m_files m cert" "m_files m cert \<noteq> None" by simp_all
  ultimately show ?thesis by blast
qed

theorem linux_install_detected_witness:
  "\<exists>m'. linux_install all_ok (\<lambda>args x. (Inr True, x))  ''/c.crt''
     \<lparr>m_files = [''/c.crt'' \<mapsto> ''pem''], m_dirs = \<lambda>d. d = debian_dir, m_env = Map.empty, m_path = [], m_ext = ()\<rparr> = (Inr (), m') \<and>
     linux_is_installed (\<lambda>args x. (Inr False, x)) ''/c.crt'' m' \<and> m_files m' (debian_dir @ ''/sidedns.crt'') = Some ''pem''"
proof -
  let ?m = "\<lparr>m_files = [''/c.crt'' \<mapsto> ''pem''], m_dirs = \<lambda>d. d = debian_dir, m_env = Map.empty, m_path = [], m_ext = ()\<rparr>"
  let ?cmd = "\<lambda>args x. (Inr (args \<noteq> [''openssl'', ''verify'', ''-CAfile'', ''/etc/ssl/certs/ca-certificates.crt'', ''/c.crt'']), x)"
  let ?m' = "?m\<lparr>m_files := (m_files ?m)(debian_dir @ ''/sidedns.crt'' \<mapsto> ''pem'')\<rparr>"
  have run: "linux_install all_ok ?cmd ''/c.crt'' ?m = (Inr (), ?m')"
    "linux_install all_ok (\<lambda>args x. (Inr True, x)) ''/c.crt'' ?m = (Inr (), ?m')"
    by (simp_all add: linux_install_def exists_path_def copy_file_def andthen_def ensure_cmd_def run_cmd_def all_ok_def)
  have "exists_path debian_dir ?m" by (simp add: exists_path_def)
  from linux_install_detected [OF run(1) this]
  have "m_files ?m' (debian_dir @ ''/sidedns.crt'') = Some ''pem''" "linux_is_installed ?cmd ''/c.crt'' ?m'" by auto
  then have "linux_is_installed (\<lambda>args x. (Inr False, x)) ''/c.crt'' ?m'"
    by (simp add: linux_is_installed_def cmd_ok_def)
  with run show ?thesis by (intro exI [of _ ?m']) simp
qed

text \<open>
  On an Arch system a successful installation changes none of the paths that the check for
  an installed certificate looks at, so without a positive answer of \<^verbatim>\<open>openssl\<close> the
  certificate that was just installed is reported as not installed.
\<close>

theorem arch_install_not_detected:
  assumes "linux_install h cmd cert m = (Inr u, m')" "\<not> exists_path debian_dir m" "\<not> exists_path fedora_dir m"
    and "\<not> linux_is_installed cmd cert m"
    and "\<not> cmd_ok cmd [''openssl'', ''verify'', ''-CAfile'', ''/etc/ssl/certs/ca-certificates.crt'', cert] m'"
  shows "exists_path (arch_dir @ ''/anchors/sidedns.pem'') m' \<and> \<not> linux_is_installed cmd cert m'"
proof -
  let ?dst = "arch_dir @ ''/anchors/sidedns.pem''" and ?st = "[''sudo'', ''trust'', ''anchor'', ''--store'', cert]"
  from assms obtain m1 where m1: "copy_file h cert ?dst m = (Inr (), m1)"
    and m': "ensure_cmd cmd ?st ''trust anchor --store failed'' m1 = (Inr u, m')"
    by (auto simp: linux_install_def dest: andthen_ok split: if_splits)
  from m' only_ext_ensure [of m1 cmd ?st "''trust anchor --store failed''"]
  have f: "m_files m' = m_files m1" "m_dirs m' = m_dirs m1" by (simp_all add: only_extD)
  obtain c where "m_files m' = (m_files m)(?dst \<mapsto> c)" "m_dirs m' = m_dirs m"
    using copy_file_ok [OF m1] f by auto
  with assms(4,5) show ?thesis
    by (simp add: linux_is_installed_def exists_path_def linux_dest_paths)
qed

theorem arch_install_not_detected_witness:
  "\<exists>m'. linux_install all_ok (\<lambda>args x. (Inr (args ! 0 = ''sudo''), x)) ''/c.crt''
     \<lparr>m_files = [''/c.crt'' \<mapsto> ''pem''], m_dirs = \<lambda>d. d = arch_dir, m_env = Map.empty, m_path = [], m_ext = ()\<rparr> = (Inr (), m') \<and>
     \<not> linux_is_installed (\<lambda>args x. (Inr (args ! 0 = ''sudo''), x)) ''/c.crt'' m'"
proof -
  let ?m = "\<lparr>m_files = [''/c.crt'' \<mapsto> ''pem''], m_dirs = \<lambda>d. d = arch_dir, m_env = Map.empty, m_path = [], m_ext = ()\<rparr>"
  let ?cmd = "\<lambda>(args :: string list) x. (Inr (args ! 0 = ''sudo''), x)"
  let ?m' = "?m\<lparr>m_files := (m_files ?m)(arch_dir @ ''/anchors/sidedns.pem'' \<mapsto> ''pem'')\<rparr>"
  note dirs = debian_dir_def fedora_dir_def arch_dir_def
  have "linux_install all_ok ?cmd ''/c.crt'' ?m = (Inr (), ?m')"
    by (simp add: linux_install_def exists_path_def copy_file_def andthen_def ensure_cmd_def run_cmd_def all_ok_def dirs)
  moreover have "\<not> exists_path debian_dir ?m" "\<not> exists_path fedora_dir ?m" "\<not> linux_is_installed ?cmd ''/c.crt'' ?m"
    by (simp_all add: exists_path_def linux_is_installed_def cmd_ok_def dirs)
  moreover have "\<not> cmd_ok ?cmd [''openssl'', ''verify'', ''-CAfile'', ''/etc/ssl/certs/ca-certificates.crt'', ''/c.crt''] ?m'"
    by (simp add: cmd_ok_def)
  ultimately show ?thesis
    using arch_install_not_detected [of all_ok ?cmd "''/c.crt''" ?m "()" ?m'] by blast
qed

section \<open>The browsers' databases\<close>

text \<open>
  What the documentation of \<^verbatim>\<open>certutil\<close> promises, for a database of the profiles that hold the
  certificate: \<^verbatim>\<open>-V\<close> asks, \<^verbatim>\<open>-A\<close> adds and \<^verbatim>\<open>-D\<close> deletes.
\<close>

definition certutil_works :: "'x command \<Rightarrow> ('x \<Rightarrow> string set) \<Rightarrow> string \<Rightarrow> string \<Rightarrow> bool" where
  "certutil_works cmd db cu cert =
     (\<forall>p x. cmd (nss_check cu p) x = (Inr (p \<in> db x), x) \<and>
        (\<exists>x'. cmd (nss_add cu cert p) x = (Inr True, x') \<and> db x' = insert p (db x)) \<and>
        (\<exists>x'. cmd (nss_delete cu p) x = (Inr True, x') \<and> db x' = db x - {p}))"

lemma certutil_worksE:
  assumes "certutil_works cmd db cu cert"
  obtains a d where "cmd (nss_check cu p) x = (Inr (p \<in> db x), x)"
    and "cmd (nss_add cu cert p) x = (Inr True, a)" "db a = insert p (db x)"
    and "cmd (nss_delete cu p) x = (Inr True, d)" "db d = db x - {p}"
  using assms unfolding certutil_works_def by metis

lemma nss_add_all_works:
  assumes "certutil_works cmd db cu cert"
  shows "\<exists>x. nss_add_all cmd cu cert ps b m = (Inr (b \<or> ps \<noteq> []), m\<lparr>m_ext := x\<rparr>) \<and> db x = db (m_ext m) \<union> set ps"
proof (induction ps arbitrary: b m)
  case Nil
  then show ?case by (intro exI [of _ "m_ext m"]) simp
next
  case (Cons p ps)
  from assms obtain a where a: "cmd (nss_add cu cert p) (m_ext m) = (Inr True, a)" "db a = insert p (db (m_ext m))"
    by (metis certutil_worksE)
  from Cons [of True "m\<lparr>m_ext := a\<rparr>"] obtain x where
    "nss_add_all cmd cu cert ps True (m\<lparr>m_ext := a\<rparr>) = (Inr True, m\<lparr>m_ext := x\<rparr>)" "db x = db a \<union> set ps"
    by auto
  with a show ?case by (auto simp: run_cmd_def)
qed

lemma nss_remove_all_works:
  assumes "certutil_works cmd db cu cert"
  shows "\<exists>x. nss_remove_all cmd cu ps m = (Inr (), m\<lparr>m_ext := x\<rparr>) \<and> db x = db (m_ext m) - set ps"
proof (induction ps arbitrary: m)
  case Nil
  then show ?case by (intro exI [of _ "m_ext m"]) simp
next
  case (Cons p ps)
  from assms obtain d where d: "cmd (nss_check cu p) (m_ext m) = (Inr (p \<in> db (m_ext m)), m_ext m)"
    "cmd (nss_delete cu p) (m_ext m) = (Inr True, d)" "db d = db (m_ext m) - {p}"
    by (metis certutil_worksE)
  from Cons [of m] Cons [of "m\<lparr>m_ext := d\<rparr>"] d show ?case by (cases "p \<in> db (m_ext m)") (auto simp: run_cmd_def)
qed

lemma nss_profile_patterns_ext [simp]: "nss_profile_patterns pf home (m\<lparr>m_ext := x\<rparr>) = nss_profile_patterns pf home m"
  by (cases pf) (simp_all add: nss_profile_patterns_def)

lemma nss_profiles_ext [simp]: "nss_profiles pf gl home (m\<lparr>m_ext := x\<rparr>) = nss_profiles pf gl home m"
  by (simp add: nss_profiles_def has_nss_db_def exists_path_def cong: option.case_cong)

lemma certutil_path_ext [simp]: "certutil_path pf (m\<lparr>m_ext := x\<rparr>) = certutil_path pf m"
  by (simp add: certutil_path_def which_def)

lemma nss_is_installed_works:
  "certutil_path pf m = Some cu \<Longrightarrow> certutil_works cmd db cu cert \<Longrightarrow>
   nss_is_installed pf cmd gl home m \<longleftrightarrow> set (nss_profiles pf gl home m) \<inter> db (m_ext m) \<noteq> {}"
  by (auto simp: nss_is_installed_def cmd_ok_def certutil_works_def list_ex_iff)

text \<open>Fingerprints are the same only for the same digest.\<close>

lemma upper_digit_inj:
  assumes "m < 16" "n < 16"
  shows "upper_digit m = upper_digit n \<longleftrightarrow> m = n"
proof
  assume "upper_digit m = upper_digit n"
  then have "(of_char (upper_digit m) :: nat) = of_char (upper_digit n)" by simp
  with assms show "m = n" by (simp add: upper_digit_def split: if_splits)
qed simp

lemma hex_byte_inj: "hex_byte a = hex_byte b \<longleftrightarrow> a = b"
proof -
  have "unat a div 16 < 16" "unat b div 16 < 16"
    using unsigned_less [of a, where ?'a = nat] unsigned_less [of b, where ?'a = nat] by (simp_all add: div_less_iff_less_mult)
  then show ?thesis
    by (auto simp: hex_byte_def upper_digit_inj) (metis div_mult_mod_eq word_unat_eq_iff)
qed

lemma fingerprint_inj: "concat (map hex_byte xs) = concat (map hex_byte ys) \<longleftrightarrow> xs = ys"
proof (induction xs arbitrary: ys)
  case Nil
  then show ?case by (cases ys) (simp_all add: hex_byte_def)
next
  case (Cons x xs)
  have two: "length (hex_byte b) = 2" for b by (simp add: hex_byte_def)
  show ?case
  proof (cases ys)
    case (Cons y zs)
    then show ?thesis using Cons.IH [of zs] by (simp add: hex_byte_inj two append_eq_append_conv)
  qed (simp add: hex_byte_def)
qed

theorem sha1_fingerprint_exact:
  assumes "sha1_fingerprint dg cert m = Some f" "sha1_fingerprint dg cert' m' = Some f'"
  shows "f = f' \<longleftrightarrow> map_option (sha1 dg) (Option.bind (m_files m cert) (der_from_pem dg)) =
    map_option (sha1 dg) (Option.bind (m_files m' cert') (der_from_pem dg))"
  using assms by (auto simp: sha1_fingerprint_def fingerprint_inj split: option.splits)

text \<open>A machine with one browser profile.\<close>

definition nss_machine :: "string set machine" where
  "nss_machine = \<lparr>m_files = [''/bin/certutil'' \<mapsto> [], ''/h/.pki/nssdb/cert9.db'' \<mapsto> []],
     m_dirs = \<lambda>d. d = ''/h/.pki/nssdb'', m_env = Map.empty, m_path = [''/bin''], m_ext = {}\<rparr>"

text \<open>
  C32. With a working \<^verbatim>\<open>certutil\<close>, installing adds the certificate to every browser profile found
  and to no other; it is then seen as installed (if there is a profile at all), and uninstalling
  takes it out of exactly those profiles, after which it is no longer seen.
\<close>

theorem nss_round_trip:
  assumes "certutil_path pf m = Some cu" "certutil_works cmd db cu cert"
  shows "\<exists>m1 m2. nss_install pf cmd gl home cert m = (Inr (), m1) \<and>
    db (m_ext m1) = db (m_ext m) \<union> set (nss_profiles pf gl home m) \<and>
    (nss_is_installed pf cmd gl home m1 \<longleftrightarrow> nss_profiles pf gl home m \<noteq> []) \<and>
    nss_uninstall pf cmd gl home m1 = (Inr (), m2) \<and>
    db (m_ext m2) = db (m_ext m) - set (nss_profiles pf gl home m) \<and> \<not> nss_is_installed pf cmd gl home m2"
proof -
  let ?ps = "nss_profiles pf gl home m"
  obtain x where x: "nss_install pf cmd gl home cert m = (Inr (), m\<lparr>m_ext := x\<rparr>)" "db x = db (m_ext m) \<union> set ?ps"
  proof (cases ?ps)
    case Nil
    with assms(1) that [of "m_ext m"] show ?thesis by (simp add: nss_install_def)
  next
    case (Cons p ps)
    with nss_add_all_works [OF assms(2), of ?ps False m] obtain y where
      "nss_add_all cmd cu cert (p # ps) False m = (Inr True, m\<lparr>m_ext := y\<rparr>)" "db y = db (m_ext m) \<union> set ?ps" by auto
    with Cons assms(1) that [of y] show ?thesis by (simp add: nss_install_def del: nss_add_all.simps)
  qed
  from nss_remove_all_works [OF assms(2), of ?ps "m\<lparr>m_ext := x\<rparr>"] x(2) assms(1)
  obtain y where y: "nss_uninstall pf cmd gl home (m\<lparr>m_ext := x\<rparr>) = (Inr (), m\<lparr>m_ext := y\<rparr>)" "db y = db (m_ext m) - set ?ps"
    by (auto simp: nss_uninstall_def)
  have seen: "nss_is_installed pf cmd gl home (m\<lparr>m_ext := z\<rparr>) \<longleftrightarrow> set ?ps \<inter> db z \<noteq> {}" for z
    using nss_is_installed_works [OF _ assms(2), of pf "m\<lparr>m_ext := z\<rparr>"] assms(1) by simp
  have "nss_is_installed pf cmd gl home (m\<lparr>m_ext := x\<rparr>) \<longleftrightarrow> ?ps \<noteq> []" "\<not> nss_is_installed pf cmd gl home (m\<lparr>m_ext := y\<rparr>)"
    using x(2) y(2) by (auto simp: seen)
  with x y show ?thesis by auto
qed

theorem nss_round_trip_witness:
  "\<exists>(cmd :: string set command) m1 m2.
     nss_install Linux cmd (\<lambda>pat. Some [pat]) ''/h'' ''/c.crt'' nss_machine = (Inr (), m1) \<and> nss_is_installed Linux cmd (\<lambda>pat. Some [pat]) ''/h'' m1 \<and>
     nss_uninstall Linux cmd (\<lambda>pat. Some [pat]) ''/h'' m1 = (Inr (), m2) \<and> m_ext m2 = {}"
proof -
  let ?cmd = "\<lambda>args x. if args ! 1 = ''-V'' then (Inr (args ! 5 \<in> x), x)
     else if args ! 1 = ''-A'' then (Inr True, insert (args ! 3) x) else (Inr True, x - {args ! 3}) :: (string + bool) \<times> string set"
  have "certutil_path Linux nss_machine = Some ''/bin/certutil''"
    by (simp add: certutil_path_def which_def find_map_def nss_machine_def join_dir_def exe_candidates_def)
  moreover have "certutil_works ?cmd id ''/bin/certutil'' ''/c.crt''"
    by (simp add: certutil_works_def nss_check_def nss_add_def nss_delete_def)
  moreover have "nss_profiles Linux (\<lambda>pat. Some [pat]) ''/h'' nss_machine = [''/h/.pki/nssdb'']"
    by (simp add: nss_profiles_def nss_profile_patterns_def nss_extra_dirs_def has_nss_db_def exists_path_def
      nss_machine_def join_dir_def)
  ultimately show ?thesis
    using nss_round_trip [of Linux nss_machine "''/bin/certutil''" ?cmd id "''/c.crt''" "\<lambda>pat. Some [pat]" "''/h''"]
    by (intro exI [of _ ?cmd]) (auto simp: nss_machine_def)
qed

end
