(* ===== verification/CertCmd.thy ===== *)
theory CertCmd
  imports Trust
begin

text \<open>
  The certificate commands (cli/src/commands/cert.rs), on the trust stores of any
  platform (core/src/certs/trust/mod.rs).

  A command gives a result, the machine it leaves and the lines it prints. Whether the user is
  the superuser is the argument \<open>su\<close>.
\<close>

section \<open>Arguments and stores\<close>

record cert_install_args =
  ci_force :: bool
  ci_trust :: bool

record cert_trust_args =
  ct_all :: bool
  ct_system :: bool
  ct_java :: bool
  ct_nss :: bool

definition CERT_TRUST_DEFAULT_ARGS :: cert_trust_args where
  "CERT_TRUST_DEFAULT_ARGS = \<lparr>ct_all = True, ct_system = False, ct_java = False, ct_nss = False\<rparr>"

record 'x trust_store_impl =
  ts_name :: string
  ts_install :: "string \<Rightarrow> 'x machine \<Rightarrow> 'x machine outcome"
  ts_uninstall :: "string \<Rightarrow> 'x machine \<Rightarrow> 'x machine outcome"

definition available_stores :: "platform \<Rightarrow> os \<Rightarrow> 'x command \<Rightarrow> digests \<Rightarrow> glob \<Rightarrow> string \<Rightarrow> 'x trust_store_impl list" where
  "available_stores pf h cmd dg gl home =
     [\<lparr>ts_name = ''system'', ts_install = system_install pf h cmd, ts_uninstall = system_uninstall pf h cmd dg\<rparr>,
      \<lparr>ts_name = ''nss'', ts_install = nss_install pf cmd gl home, ts_uninstall = \<lambda>_. nss_uninstall pf cmd gl home\<rparr>,
      \<lparr>ts_name = ''java'', ts_install = java_install pf cmd, ts_uninstall = \<lambda>_. java_uninstall pf cmd\<rparr>]"

definition store_selected :: "cert_trust_args \<Rightarrow> string \<Rightarrow> bool" where
  "store_selected args name =
     (ct_all args \<or> ct_system args \<and> name = ''system'' \<or> ct_java args \<and> name = ''java'' \<or> ct_nss args \<and> name = ''nss'')"

section \<open>The commands\<close>

type_synonym 'x cert_result = "(string + unit) \<times> 'x machine \<times> string list"

definition not_installed_msg :: string where
  "not_installed_msg = CERT_NAME @ '' is not installed. Run 'sidedns cert install' first.''"

fun trust_loop :: "cert_trust_args \<Rightarrow> string \<Rightarrow> 'x trust_store_impl list \<Rightarrow> 'x machine \<Rightarrow> 'x machine \<times> string list" where
  "trust_loop args cert [] m = (m, [])"
| "trust_loop args cert (s # ss) m =
     (if store_selected args (ts_name s)
      then let (r, m') = ts_install s cert m; (m'', out) = trust_loop args cert ss m'
        in (m'', (case r of Inr _ \<Rightarrow> ''Trusted in '' @ ts_name s @ '' store.''
                  | Inl e \<Rightarrow> ''Failed to trust in '' @ ts_name s @ '' store: '' @ e) # out)
      else trust_loop args cert ss m)"

fun untrust_loop :: "cert_trust_args \<Rightarrow> string \<Rightarrow> 'x trust_store_impl list \<Rightarrow> 'x machine \<Rightarrow> 'x machine \<times> string list" where
  "untrust_loop args cert [] m = (m, [])"
| "untrust_loop args cert (s # ss) m =
     (if store_selected args (ts_name s)
      then let (r, m') = ts_uninstall s cert m; (m'', out) = untrust_loop args cert ss m'
        in (m'', (case r of Inr _ \<Rightarrow> ''Untrusted in '' @ ts_name s @ '' store.''
                  | Inl e \<Rightarrow> ''Failed to untrust in '' @ ts_name s @ '' store: '' @ e) # out)
      else untrust_loop args cert ss m)"

definition cert_trust ::
    "bool \<Rightarrow> ('ca, 'cert) pki \<Rightarrow> string \<Rightarrow> 'x trust_store_impl list \<Rightarrow> cert_trust_args \<Rightarrow> 'x machine \<Rightarrow> 'x cert_result" where
  "cert_trust su pki dir stores args m =
     (if \<not> ca_is_installed pki dir (m_files m) then (Inr (), m, [not_installed_msg])
      else if \<not> su then (Inl ''sidedns cert trust must be run as root/administrator'', m, [])
      else if stores = [] then (Inr (), m, [''No trust stores available to trust the certificate.''])
      else (Inr (), trust_loop args (cert_path dir) stores m))"

definition cert_untrust ::
    "bool \<Rightarrow> ('ca, 'cert) pki \<Rightarrow> string \<Rightarrow> 'x trust_store_impl list \<Rightarrow> cert_trust_args \<Rightarrow> 'x machine \<Rightarrow> 'x cert_result" where
  "cert_untrust su pki dir stores args m =
     (if \<not> ca_is_installed pki dir (m_files m) then (Inr (), m, [not_installed_msg])
      else if \<not> su then (Inl ''sidedns cert untrust must be run as root/administrator'', m, [])
      else if stores = [] then (Inr (), m, [''No trust stores available to untrust the certificate.''])
      else (Inr (), untrust_loop args (cert_path dir) stores m))"

definition cert_install ::
    "bool \<Rightarrow> os \<Rightarrow> ('ca, 'cert) pki \<Rightarrow> string \<Rightarrow> 'x trust_store_impl list \<Rightarrow> cert_install_args \<Rightarrow> 'x machine \<Rightarrow> 'x cert_result" where
  "cert_install su h pki dir stores args m =
     (if \<not> (su \<and> ci_trust args) then (Inl ''sidedns cert --trust must be run as root/administrator'', m, [])
      else if ca_is_installed pki dir (m_files m) \<and> \<not> ci_force args
      then (Inr (), m, [CERT_NAME @ '' Already Installed'',
              ''Use '--force' to re-generate and re-install the certificate.''])
      else
        let out = [''Generating new '' @ CERT_NAME @ '' certificate... '' @
                   (if ca_is_installed pki dir (m_files m) then ''(overwriting existing one)'' else [])];
            (r, fs) = ca_load_or_generate h pki (m_env m) dir (m_files m);
            m' = m\<lparr>m_files := fs\<rparr>
        in case r of
             Inl e \<Rightarrow> (Inl e, m', out)
           | Inr _ \<Rightarrow>
               let out' = out @ [CERT_NAME @ '' Is now installed on your system.'', ''Certificate path: '' @ cert_path dir]
               in if \<not> ci_trust args
                  then (Inr (), m', out' @ [''Run 'sidedns cert trust' to trust it in supported stores.''])
                  else let (r', m'', ls) = cert_trust su pki dir stores CERT_TRUST_DEFAULT_ARGS m' in (r', m'', out' @ ls))"

definition cert_uninstall ::
    "bool \<Rightarrow> os \<Rightarrow> ('ca, 'cert) pki \<Rightarrow> string \<Rightarrow> 'x trust_store_impl list \<Rightarrow> 'x machine \<Rightarrow> 'x cert_result" where
  "cert_uninstall su h pki dir stores m =
     (if \<not> ca_is_installed pki dir (m_files m)
      then (Inr (), m, [CERT_NAME @ '' is not installed. Nothing to uninstall.''])
      else if \<not> su then (Inl ''sidedns cert uninstall must be run as root/administrator'', m, [])
      else
        let out = [''Untrusting '' @ CERT_NAME @ '' from all stores...''];
            (r, m', ls) = cert_untrust su pki dir stores CERT_TRUST_DEFAULT_ARGS m
        in case r of
             Inl e \<Rightarrow> (Inl e, m', out @ ls)
           | Inr _ \<Rightarrow>
               let out' = out @ ls @ [''Uninstalling '' @ CERT_NAME @ ''...''];
                   (r', fs) = ca_uninstall h dir (m_files m')
               in (case r' of
                     Inl e \<Rightarrow> (Inl e, m'\<lparr>m_files := fs\<rparr>, out')
                   | Inr _ \<Rightarrow> (Inr (), m'\<lparr>m_files := fs\<rparr>, out' @ [CERT_NAME @ '' has been uninstalled from your system.''])))"

section \<open>Facts\<close>

text \<open>A store whose operations write only the given files.\<close>

definition store_confined :: "string set \<Rightarrow> 'x trust_store_impl \<Rightarrow> bool" where
  "store_confined own s = (\<forall>cert m. writes_only own m (snd (ts_install s cert m)) \<and> writes_only own m (snd (ts_uninstall s cert m)))"

lemma writes_only_trans: "writes_only ps m m' \<Longrightarrow> writes_only ps m' m'' \<Longrightarrow> writes_only ps m m''"
  by (simp add: writes_only_def)

lemma stores_confined: "s \<in> set (available_stores pf h cmd dg gl home) \<Longrightarrow> store_confined linux_own s"
  by (auto simp: available_stores_def store_confined_def system_store.confined nss.confined java.confined)

lemma trust_loop_confined:
  "(\<And>s. s \<in> set ss \<Longrightarrow> store_confined own s) \<Longrightarrow> writes_only own m (fst (trust_loop args cert ss m))"
proof (induction ss arbitrary: m)
  case (Cons s ss)
  have "writes_only own m (snd (ts_install s cert m))" using Cons.prems [of s] by (simp add: store_confined_def)
  moreover have "writes_only own m' (fst (trust_loop args cert ss m'))" for m' using Cons by simp
  ultimately show ?case by (auto simp: split_beta Let_def intro: writes_only_trans)
qed simp

lemma untrust_loop_confined:
  "(\<And>s. s \<in> set ss \<Longrightarrow> store_confined own s) \<Longrightarrow> writes_only own m (fst (untrust_loop args cert ss m))"
proof (induction ss arbitrary: m)
  case (Cons s ss)
  have "writes_only own m (snd (ts_uninstall s cert m))" using Cons.prems [of s] by (simp add: store_confined_def)
  moreover have "writes_only own m' (fst (untrust_loop args cert ss m'))" for m' using Cons by simp
  ultimately show ?case by (auto simp: split_beta Let_def intro: writes_only_trans)
qed simp

lemma loop_lines:
  "length (snd (trust_loop args cert ss m)) = length (filter (\<lambda>s. store_selected args (ts_name s)) ss)"
  "length (snd (untrust_loop args cert ss m)) = length (filter (\<lambda>s. store_selected args (ts_name s)) ss)"
  by (induction ss arbitrary: m) (simp_all add: split_beta Let_def)

lemma trust_confined:
  "writes_only linux_own m (fst (snd (cert_trust su pki dir (available_stores pf h cmd dg gl home) args m)))"
  "writes_only linux_own m (fst (snd (cert_untrust su pki dir (available_stores pf h cmd dg gl home) args m)))"
  by (simp_all add: cert_trust_def cert_untrust_def trust_loop_confined untrust_loop_confined stores_confined)

lemma ca_load_confined:
  "writes_only own m m' \<Longrightarrow> cert_path dir \<notin> own \<Longrightarrow> cert_key_path dir \<notin> own \<Longrightarrow>
   ca_load pki dir (m_files m') = ca_load pki dir (m_files m)"
  by (rule ca_load_cong) (simp_all add: writes_only_def)

section \<open>Properties\<close>

text \<open>
  C33. Trusting and untrusting never touch the certificate authority: whatever the stores and
  the programs they run do, they change no file but their own three, so the authority on disk
  stays the same. With the authority installed, a superuser's command always ends well and
  prints one line for each selected store: a store that fails does not stop the others.
\<close>

theorem trust_keeps_authority:
  assumes "cert_path dir \<notin> linux_own" "cert_key_path dir \<notin> linux_own"
    and "f = cert_trust \<or> f = cert_untrust"
    and "f su pki dir (available_stores pf h cmd dg gl home) args m = (r, m', out)"
  shows "ca_load pki dir (m_files m') = ca_load pki dir (m_files m) \<and> writes_only linux_own m m' \<and>
    (su \<and> ca_is_installed pki dir (m_files m) \<longrightarrow>
      r = Inr () \<and> length out = length (filter (store_selected args) [''system'', ''nss'', ''java'']))"
proof -
  have w: "writes_only linux_own m m'"
    using assms(3,4) trust_confined [of m su pki dir pf h cmd dg gl home args] by auto
  moreover have "r = Inr () \<and> length out = length (filter (store_selected args) [''system'', ''nss'', ''java''])"
    if "su" "ca_is_installed pki dir (m_files m)"
  proof -
    have names: "[''system'', ''nss'', ''java''] = map ts_name (available_stores pf h cmd dg gl home)"
      by (simp add: available_stores_def)
    have "available_stores pf h cmd dg gl home \<noteq> []" by (simp add: available_stores_def)
    with that assms(3,4) have "r = Inr ()" and "out \<in> {snd (trust_loop args (cert_path dir) (available_stores pf h cmd dg gl home) m),
        snd (untrust_loop args (cert_path dir) (available_stores pf h cmd dg gl home) m)}"
      by (auto simp: cert_trust_def cert_untrust_def dest: sym)
    then show ?thesis unfolding names filter_map length_map comp_def by (auto simp: loop_lines)
  qed
  ultimately show ?thesis using ca_load_confined [OF w assms(1,2)] by blast
qed

text \<open>
  A store whose program is missing is listed all the same, and fails.
\<close>

theorem unavailable_store_tried:
  "''nss'' \<in> set (map ts_name (available_stores pf h cmd dg gl home)) \<and>
   (\<not> nss_is_available pf m \<longrightarrow> nss_install pf cmd gl home cert m = (Inl (certutil_missing_hint pf), m))"
  by (simp add: available_stores_def nss_is_available_def nss_install_def)

text \<open>
  Without \<^verbatim>\<open>--trust\<close> installing always fails, for the superuser too, and changes nothing.
\<close>

theorem cert_install_needs_trust:
  "cert_install su h pki dir stores \<lparr>ci_force = force, ci_trust = False\<rparr> m =
     (Inl ''sidedns cert --trust must be run as root/administrator'', m, [])"
  by (simp add: cert_install_def)

text \<open>
  With \<^verbatim>\<open>--force\<close> an installed authority is not regenerated: the command announces that it
  overwrites the certificate, and leaves the authority on disk as it was.
\<close>

theorem force_keeps_authority:
  assumes "ca_is_installed pki dir (m_files m)" "cert_path dir \<notin> linux_own" "cert_key_path dir \<notin> linux_own"
    and "cert_install True h pki dir (available_stores pf h cmd dg gl home) \<lparr>ci_force = True, ci_trust = True\<rparr> m = (r, m', out)"
  shows "r = Inr () \<and> ca_load pki dir (m_files m') = ca_load pki dir (m_files m) \<and>
    out ! 0 = ''Generating new SideDNS Local CA certificate... (overwriting existing one)''"
proof -
  from assms(1) obtain ca where "ca_load pki dir (m_files m) = Inr ca"
    by (auto simp: ca_is_installed_def split: sum.splits)
  then have "ca_load_or_generate h pki (m_env m) dir (m_files m) = (Inr ca, m_files m)"
    by (simp add: ca_load_or_generate_def)
  moreover obtain r0 m0 ls where c: "cert_trust True pki dir (available_stores pf h cmd dg gl home) CERT_TRUST_DEFAULT_ARGS m = (r0, m0, ls)"
    by (rule prod_cases3)
  ultimately have "r = r0" "m' = m0"
    and out: "out ! 0 = ''Generating new SideDNS Local CA certificate... (overwriting existing one)''"
    using assms(1,4) by (auto simp: cert_install_def CERT_NAME_def)
  with c show ?thesis
    using trust_confined(1) [of m True pki dir pf h cmd dg gl home CERT_TRUST_DEFAULT_ARGS] assms(1-3)
    by (auto simp: cert_trust_def available_stores_def intro!: ca_load_confined)
qed

text \<open>The untrust commands remove the copy a trust command made.\<close>

lemma debian_trust_files:
  assumes "ca_is_installed pki dir (m_files m)" "exists_path debian_dir m" "m_files m (cert_path dir) = Some c"
    and "can_write h (debian_dir @ ''/sidedns.crt'')"
  shows "m_files (fst (snd (cert_trust True pki dir (available_stores Linux h cmd dg gl home) CERT_TRUST_DEFAULT_ARGS m))) =
     (m_files m)(debian_dir @ ''/sidedns.crt'' \<mapsto> c)"
proof -
  let ?m = "m\<lparr>m_files := (m_files m)(debian_dir @ ''/sidedns.crt'' \<mapsto> c)\<rparr>"
  have "copy_file h (cert_path dir) (debian_dir @ ''/sidedns.crt'') m = (Inr (), ?m)"
    using assms(3,4) by (simp add: copy_file_def)
  then have "m_files (snd (linux_install h cmd (cert_path dir) m)) = m_files ?m"
    using assms(2) by (simp add: linux_install_def andthen_def ext_files)
  with assms(1) show ?thesis
    by (simp add: ext_files cert_trust_def available_stores_def system_install_def system_uninstall_def store_selected_def CERT_TRUST_DEFAULT_ARGS_def split_beta Let_def)
qed

lemma debian_untrust_files:
  assumes "ca_is_installed pki dir (m_files m)" "m_files m (debian_dir @ ''/sidedns.crt'') \<noteq> None"
    and "can_remove h (debian_dir @ ''/sidedns.crt'')"
  shows "m_files (fst (snd (cert_untrust True pki dir (available_stores Linux h cmd dg gl home) CERT_TRUST_DEFAULT_ARGS m))) =
     (m_files m)(debian_dir @ ''/sidedns.crt'' := None)"
proof -
  let ?m = "m\<lparr>m_files := (m_files m)(debian_dir @ ''/sidedns.crt'' := None)\<rparr>"
  have "remove_path h (debian_dir @ ''/sidedns.crt'') m = (Inr (), ?m)" "exists_path (debian_dir @ ''/sidedns.crt'') m"
    using assms(2,3) by (simp_all add: remove_path_def exists_path_def)
  then have "m_files (snd (linux_uninstall h cmd (cert_path dir) m)) = m_files ?m"
    by (simp add: linux_uninstall_def andthen_def ext_files)
  with assms(1) show ?thesis
    by (simp add: ext_files cert_untrust_def available_stores_def system_install_def system_uninstall_def store_selected_def CERT_TRUST_DEFAULT_ARGS_def split_beta Let_def)
qed



section \<open>Examples\<close>

definition toy_pki :: "(string, unit) pki" where
  "toy_pki = \<lparr>issuer_from_pem = \<lambda>c k. Inr k, generate_ca = \<lambda>ps. Inr (''cert'', ''key'', ''key''), signed_by = \<lambda>k ca ps. Inr ()\<rparr>"

definition debian_machine :: "files \<Rightarrow> unit machine" where
  "debian_machine fs = \<lparr>m_files = fs, m_dirs = \<lambda>d. d = debian_dir, m_env = Map.empty, m_path = [], m_ext = ()\<rparr>"

definition toy_digests :: digests where
  "toy_digests = \<lparr>der_from_pem = \<lambda>pem. Some [], sha1 = id\<rparr>"

abbreviation toy_stores :: "unit trust_store_impl list" where
  "toy_stores \<equiv> available_stores Linux all_ok (\<lambda>args x. (Inr True, x)) toy_digests (\<lambda>pat. None) ''/h''"

lemmas toy_eval = cert_install_def cert_trust_def cert_untrust_def available_stores_def store_selected_def
  CERT_TRUST_DEFAULT_ARGS_def ca_is_installed_def ca_load_or_generate_def ca_load_def ca_generate_def ca_save_def
  write_file_def andthen_def system_install_def system_uninstall_def linux_install_def linux_uninstall_def nss_install_def nss_uninstall_def java_install_def java_uninstall_def
  certutil_path_def which_def find_map_def keytool_path_def
  copy_file_def remove_path_def ensure_cmd_def try_cmd_def run_cmd_def exists_path_def all_ok_def toy_pki_def debian_machine_def

lemma toy_paths: "cert_path ''/d'' \<notin> linux_own" "cert_key_path ''/d'' \<notin> linux_own"
  by (simp_all add: linux_own_def cert_path_def cert_key_path_def debian_dir_def fedora_dir_def arch_dir_def)

definition toy_ca :: files where
  "toy_ca = [cert_path ''/d'' \<mapsto> ''c'', cert_key_path ''/d'' \<mapsto> ''k'']"

theorem trust_keeps_authority_witness:
  "\<exists>m' out. cert_trust True toy_pki ''/d'' toy_stores CERT_TRUST_DEFAULT_ARGS (debian_machine toy_ca) = (Inr (), m', out) \<and>
     ca_load toy_pki ''/d'' (m_files m') = Inr ''k'' \<and> length out = 3"
proof -
  obtain r m' out where run: "cert_trust True toy_pki ''/d'' toy_stores CERT_TRUST_DEFAULT_ARGS (debian_machine toy_ca) = (r, m', out)"
    by (rule prod_cases3)
  have "ca_load toy_pki ''/d'' (m_files (debian_machine toy_ca)) = Inr ''k''"
    by (simp add: ca_load_def toy_ca_def debian_machine_def toy_pki_def)
  with trust_keeps_authority [where f = cert_trust, OF toy_paths _ run] run show ?thesis
    by (auto simp: ca_is_installed_def store_selected_def CERT_TRUST_DEFAULT_ARGS_def)
qed

theorem force_keeps_authority_witness:
  "\<exists>m' out. cert_install True all_ok toy_pki ''/d'' toy_stores \<lparr>ci_force = True, ci_trust = True\<rparr> (debian_machine toy_ca) = (Inr (), m', out) \<and>
     ca_load toy_pki ''/d'' (m_files m') = Inr ''k''"
proof -
  obtain r m' out where run:
    "cert_install True all_ok toy_pki ''/d'' toy_stores \<lparr>ci_force = True, ci_trust = True\<rparr> (debian_machine toy_ca) = (r, m', out)"
    by (rule prod_cases3)
  have l: "ca_load toy_pki ''/d'' (m_files (debian_machine toy_ca)) = Inr ''k''"
    by (simp add: ca_load_def toy_ca_def debian_machine_def toy_pki_def)
  then have "ca_is_installed toy_pki ''/d'' (m_files (debian_machine toy_ca))" by (simp add: ca_is_installed_def)
  from force_keeps_authority [OF this toy_paths run] l run show ?thesis by auto
qed


end
