(* ===== verification/Run.thy ===== *)
theory Run
  imports Net
begin

text \<open>
  The helpers of the run command (cli/src/run.rs): waiting for a port to open, and finding the
  sockets on which a process or one of its descendants listens.
\<close>

section \<open>Waiting for a port\<close>

definition RETRY_INTERVAL_MS :: nat where
  "RETRY_INTERVAL_MS = 100"

lemma RETRY_INTERVAL_MS_pos [simp]: "0 < RETRY_INTERVAL_MS"
  by (simp add: RETRY_INTERVAL_MS_def)

text \<open>
  Times are in milliseconds. \<open>binds t\<close> tells whether the address can be bound at time \<open>t\<close>, and
  \<open>lag t\<close> is what a probe at time \<open>t\<close> and the sleep after it take beyond the interval. The result
  comes with the times of the probes.
\<close>

function wait_loop :: "(nat \<Rightarrow> bool) \<Rightarrow> (nat \<Rightarrow> nat) \<Rightarrow> nat \<Rightarrow> nat \<Rightarrow> bool \<times> nat list" where
  "wait_loop binds lag deadline now =
     (if now < deadline
      then if \<not> binds now then (True, [now])
        else let (r, ts) = wait_loop binds lag deadline (now + lag now + RETRY_INTERVAL_MS) in (r, now # ts)
      else (False, []))"
  by pat_completeness auto
termination
  by (relation "measure (\<lambda>(b, l, d, n). d - n)") (auto simp: RETRY_INTERVAL_MS_def)

declare wait_loop.simps [simp del]

definition wait_for_port :: "(nat \<Rightarrow> bool) \<Rightarrow> (nat \<Rightarrow> nat) \<Rightarrow> u32 \<Rightarrow> nat \<Rightarrow> bool \<times> nat list" where
  "wait_for_port binds lag timeout now = wait_loop binds lag (now + unat timeout * 1000) now"

section \<open>Finding listeners\<close>

text \<open>
  A process table lists process identifiers with their parents, in the order of a hash map;
  \<open>listeners\<close> may be unavailable.
\<close>

type_synonym pid = u32
type_synonym process_table = "(pid \<times> pid option) list"

record listener =
  l_pid :: pid
  l_name :: string
  l_tcp :: bool
  l_socket :: socket_addr

text \<open>The work list is a vector used as a stack; its end is the head of the list here.\<close>

definition new_children :: "process_table \<Rightarrow> pid \<Rightarrow> pid list \<Rightarrow> pid list" where
  "new_children procs cur target_pids = map fst (filter (\<lambda>(p, ppid). ppid = Some cur \<and> p \<notin> set target_pids) procs)"

lemma set_new_children: "set (new_children procs cur ts) = {p. (p, Some cur) \<in> set procs \<and> p \<notin> set ts}"
  by (force simp: new_children_def)

function collect_pids :: "process_table \<Rightarrow> pid list \<Rightarrow> pid list \<Rightarrow> pid list" where
  "collect_pids procs target_pids [] = target_pids"
| "collect_pids procs target_pids (cur # stack) =
     collect_pids procs (List.insert cur target_pids) (List.rev (new_children procs cur (List.insert cur target_pids)) @ stack)"
  by pat_completeness auto

text \<open>
  The loop ends whatever the table says (cycles and repeated entries included): each step visits
  a new process, or uncovers a process to visit next, or shortens the stack.
\<close>

definition unvisited :: "process_table \<Rightarrow> pid list \<Rightarrow> pid list \<Rightarrow> pid set" where
  "unvisited procs ts stack = fst ` set procs \<union> set stack - set ts"

lemma unvisited_step:
  "unvisited procs (List.insert cur ts) (List.rev (new_children procs cur (List.insert cur ts)) @ stack)
     = unvisited procs ts (cur # stack) - {cur}"
  by (force simp: unvisited_def set_new_children)

definition top_visited :: "pid list \<Rightarrow> pid list \<Rightarrow> nat" where
  "top_visited ts stack = (case stack of [] \<Rightarrow> 0 | x # _ \<Rightarrow> if x \<in> set ts then 1 else 0)"

lemma top_visited_step:
  "new_children procs cur ts \<noteq> [] \<Longrightarrow> top_visited ts (List.rev (new_children procs cur ts) @ stack) = 0"
proof -
  assume "new_children procs cur ts \<noteq> []"
  then obtain x xs where x: "List.rev (new_children procs cur ts) = x # xs" by (cases "List.rev (new_children procs cur ts)") auto
  then have "x \<in> set (new_children procs cur ts)" by (metis list.set_intros(1) set_rev)
  then have "x \<notin> set ts" by (simp add: set_new_children)
  with x show ?thesis by (simp add: top_visited_def)
qed

termination collect_pids
proof (relation "measures [\<lambda>(procs, ts, st). card (unvisited procs ts st), \<lambda>(procs, ts, st). top_visited ts st, \<lambda>(procs, ts, st). length st]", goal_cases)
  case (2 procs ts cur stack)
  let ?ts = "List.insert cur ts"
  let ?kids = "new_children procs cur ?ts"
  have fin: "finite (unvisited procs ts (cur # stack))" by (simp add: unvisited_def)
  show ?case
  proof (cases "cur \<in> set ts")
    case False
    then have "cur \<in> unvisited procs ts (cur # stack)" by (simp add: unvisited_def)
    with card_Diff1_less [OF fin] show ?thesis by (simp add: unvisited_step)
  next
    case True
    then have "cur \<notin> unvisited procs ts (cur # stack)" by (simp add: unvisited_def)
    then have "unvisited procs ?ts (List.rev ?kids @ stack) = unvisited procs ts (cur # stack)"
      by (simp add: unvisited_step)
    moreover have "top_visited ts (cur # stack) = 1" using True by (simp add: top_visited_def)
    moreover have "?kids = [] \<or> top_visited ?ts (List.rev ?kids @ stack) = 0"
      by (cases "?kids = []") (simp_all add: top_visited_step)
    moreover have "top_visited ?ts stack \<le> 1" by (simp add: top_visited_def split: list.split)
    ultimately show ?thesis by (auto simp: le_less)
  qed
qed simp

definition detect_network_processes :: "process_table \<Rightarrow> listener list option \<Rightarrow> pid \<Rightarrow> (string \<times> socket_addr) list" where
  "detect_network_processes procs listeners process_pid =
     (let target_pids = collect_pids procs [] [process_pid]
      in case listeners of
           Some all_listeners \<Rightarrow>
             map (\<lambda>l. (l_name l, l_socket l)) (filter (\<lambda>l. l_pid l \<in> set target_pids \<and> l_tcp l) all_listeners)
         | None \<Rightarrow> [])"

section \<open>Facts about waiting\<close>

lemma wait_loop_step:
  "now < deadline \<Longrightarrow> binds now \<Longrightarrow> wait_loop binds lag deadline now =
     (fst (wait_loop binds lag deadline (now + lag now + RETRY_INTERVAL_MS)),
      now # snd (wait_loop binds lag deadline (now + lag now + RETRY_INTERVAL_MS)))"
  by (subst wait_loop.simps) (simp add: split_beta Let_def)

lemma wait_loop_hit: "now < deadline \<Longrightarrow> \<not> binds now \<Longrightarrow> wait_loop binds lag deadline now = (True, [now])"
  by (subst wait_loop.simps) simp

lemma wait_loop_late: "\<not> now < deadline \<Longrightarrow> wait_loop binds lag deadline now = (False, [])"
  by (subst wait_loop.simps) simp

lemmas wait_loop_cases = wait_loop_step wait_loop_hit wait_loop_late

lemma wait_loop_probes:
  "list_all (\<lambda>t. now \<le> t \<and> t < deadline) (snd (wait_loop binds lag deadline now)) \<and>
   sorted_wrt (\<lambda>t u. t + RETRY_INTERVAL_MS \<le> u) (snd (wait_loop binds lag deadline now))"
proof (induction binds lag deadline now rule: wait_loop.induct)
  case (1 binds lag deadline now)
  show ?case
  proof (cases "now < deadline \<and> binds now")
    case True
    with 1 show ?thesis by (auto simp: wait_loop_step list_all_iff)
  next
    case False
    then show ?thesis by (cases "now < deadline") (simp_all add: wait_loop_cases)
  qed
qed

lemma wait_loop_count:
  "RETRY_INTERVAL_MS * length (snd (wait_loop binds lag deadline now)) < deadline - now + RETRY_INTERVAL_MS"
proof (induction binds lag deadline now rule: wait_loop.induct)
  case (1 binds lag deadline now)
  show ?case
  proof (cases "now < deadline \<and> binds now")
    case True
    with 1 show ?thesis
      by (cases "deadline \<le> now + lag now + RETRY_INTERVAL_MS") (auto simp: wait_loop_step RETRY_INTERVAL_MS_def)
  next
    case False
    then show ?thesis by (cases "now < deadline") (simp_all add: wait_loop_cases)
  qed
qed

lemma wait_loop_result:
  "fst (wait_loop binds lag deadline now) = list_ex (\<lambda>t. \<not> binds t) (snd (wait_loop binds lag deadline now))"
proof (induction binds lag deadline now rule: wait_loop.induct)
  case (1 binds lag deadline now)
  show ?case
  proof (cases "now < deadline \<and> binds now")
    case True
    with 1 show ?thesis by (auto simp: wait_loop_step)
  next
    case False
    then show ?thesis by (cases "now < deadline") (simp_all add: wait_loop_cases)
  qed
qed

text \<open>If the port opens by \<open>t0\<close> and stays open, and a probe with its sleep takes at most the
  interval and \<open>d\<close>, it is seen.\<close>

lemma wait_loop_sees:
  assumes "\<forall>t\<ge>t0. \<not> binds t" "\<forall>t. lag t \<le> d" "now < deadline" "now \<le> t0 + d + RETRY_INTERVAL_MS"
    and "t0 + d + RETRY_INTERVAL_MS < deadline"
  shows "fst (wait_loop binds lag deadline now)"
  using assms
proof (induction binds lag deadline now rule: wait_loop.induct)
  case (1 binds lag deadline now)
  show ?case
  proof (cases "binds now")
    case True
    with 1(2) have "now < t0" by (meson not_le)
    moreover from 1(3) have "lag now \<le> d" by blast
    ultimately have "now + lag now + RETRY_INTERVAL_MS \<le> t0 + d + RETRY_INTERVAL_MS" by simp
    moreover from this 1(6) have "now + lag now + RETRY_INTERVAL_MS < deadline" by simp
    ultimately show ?thesis using 1 True by (simp add: wait_loop_step)
  next
    case False
    with 1(4) show ?thesis by (simp add: wait_loop_hit)
  qed
qed

section \<open>Facts about processes\<close>

definition child_of :: "process_table \<Rightarrow> (pid \<times> pid) set" where
  "child_of procs = {(q, p). (p, Some q) \<in> set procs}"

lemma collect_sound:
  "set (collect_pids procs ts stack) \<subseteq> set ts \<union> (child_of procs)\<^sup>* `` set stack"
proof (induction procs ts stack rule: collect_pids.induct)
  case (2 procs ts cur stack)
  let ?kids = "new_children procs cur (List.insert cur ts)"
  have kids: "set ?kids \<subseteq> child_of procs `` {cur}" by (auto simp: set_new_children child_of_def)
  have "(child_of procs)\<^sup>* `` set ?kids \<subseteq> (child_of procs)\<^sup>* `` {cur}"
    using kids by (auto intro: converse_rtrancl_into_rtrancl)
  with 2 show ?case by (auto simp: Image_Un)
qed simp

lemma collect_contains: "set ts \<union> set stack \<subseteq> set (collect_pids procs ts stack)"
  by (induction procs ts stack rule: collect_pids.induct) auto

lemma collect_closed:
  assumes "\<forall>x\<in>set ts. child_of procs `` {x} \<subseteq> set ts \<union> set stack"
  shows "child_of procs `` set (collect_pids procs ts stack) \<subseteq> set (collect_pids procs ts stack)"
  using assms
proof (induction procs ts stack rule: collect_pids.induct)
  case (2 procs ts cur stack)
  let ?ts = "List.insert cur ts"
  have "\<forall>x\<in>set ?ts. child_of procs `` {x} \<subseteq> set ?ts \<union> set (List.rev (new_children procs cur ?ts) @ stack)"
    using 2(2) by (auto simp: set_new_children child_of_def)
  with 2(1) show ?case by simp
qed auto

lemma collect_descendants: "set (collect_pids procs [] [p]) = (child_of procs)\<^sup>* `` {p}"
proof
  show "set (collect_pids procs [] [p]) \<subseteq> (child_of procs)\<^sup>* `` {p}" using collect_sound [of procs "[]" "[p]"] by simp
next
  let ?S = "set (collect_pids procs [] [p])"
  have "p \<in> ?S" using collect_contains [of "[]" "[p]" procs] by simp
  moreover have "child_of procs `` ?S \<subseteq> ?S" by (rule collect_closed) simp
  ultimately show "(child_of procs)\<^sup>* `` {p} \<subseteq> ?S" using Image_closed_trancl [of "child_of procs" ?S] by auto
qed

section \<open>Properties\<close>

text \<open>
  C37. Waiting for a port is bounded: it probes at most ten times per second of the timeout, the
  probes are at least the retry interval apart and all before the deadline, and the answer is
  that some probe could not bind the address.
\<close>

theorem wait_for_port_bounded:
  "length (snd (wait_for_port binds lag timeout now)) \<le> 10 * unat timeout \<and>
   list_all (\<lambda>t. now \<le> t \<and> t < now + unat timeout * 1000) (snd (wait_for_port binds lag timeout now)) \<and>
   sorted_wrt (\<lambda>t u. t + RETRY_INTERVAL_MS \<le> u) (snd (wait_for_port binds lag timeout now)) \<and>
   fst (wait_for_port binds lag timeout now) = list_ex (\<lambda>t. \<not> binds t) (snd (wait_for_port binds lag timeout now))"
  using wait_loop_probes [of now "now + unat timeout * 1000" binds lag]
    wait_loop_count [of binds lag "now + unat timeout * 1000" now]
    wait_loop_result [of binds lag "now + unat timeout * 1000" now]
  by (auto simp: wait_for_port_def RETRY_INTERVAL_MS_def)

text \<open>
  A port that opens in time is seen: if the address is taken from \<open>t0\<close> on, no probe and sleep
  takes more than the retry interval and \<open>d\<close>, and there is room for one more probe before the
  deadline, the wait succeeds.
\<close>

theorem wait_for_port_sees:
  assumes "\<forall>t\<ge>t0. \<not> binds t" "\<forall>t. lag t \<le> d" "now \<le> t0 + d + RETRY_INTERVAL_MS"
    and "t0 + d + RETRY_INTERVAL_MS < now + unat timeout * 1000"
  shows "fst (wait_for_port binds lag timeout now)"
  unfolding wait_for_port_def using assms by (intro wait_loop_sees [of t0 binds lag d]) auto

theorem wait_for_port_sees_witness:
  "fst (wait_for_port (\<lambda>t. t < 730) (\<lambda>t. 5) 1 0) \<and> snd (wait_for_port (\<lambda>t. t < 730) (\<lambda>t. 5) 1 0) = [0, 105, 210, 315, 420, 525, 630, 735]"
proof
  show "fst (wait_for_port (\<lambda>t. t < 730) (\<lambda>t. 5) 1 0)"
    using wait_for_port_sees [of 730 "\<lambda>t. t < 730" "\<lambda>t. 5" 5 0 1] by (simp add: RETRY_INTERVAL_MS_def)
  show "snd (wait_for_port (\<lambda>t. t < 730) (\<lambda>t. 5) 1 0) = [0, 105, 210, 315, 420, 525, 630, 735]"
    by (simp add: wait_for_port_def wait_loop.simps RETRY_INTERVAL_MS_def)
qed

text \<open>
  C30. Detection finds exactly the TCP sockets of the process and all its descendants, in the
  order of the listing, whatever the shape of the process table.
\<close>

theorem detect_network_processes_exact:
  "detect_network_processes procs (Some ls) p =
     map (\<lambda>l. (l_name l, l_socket l)) (filter (\<lambda>l. (p, l_pid l) \<in> (child_of procs)\<^sup>* \<and> l_tcp l) ls) \<and>
   detect_network_processes procs None p = []"
  by (simp add: detect_network_processes_def collect_descendants del: collect_pids.simps)

end
