(* ===== verification/Cli.thy ===== *)
theory Cli
  imports Ipc CertCmd
begin

text \<open>
  The commands of the command line that talk to the daemon (cli/src/commands: add, remove,
  resolve, list, status, watch, clean) and the rule table they print.

  A command is given the client's \<open>send\<close> (see \<open>Ipc\<close>), and gives a result, the state of the
  daemon afterwards and the lines it prints. Strings are bytes in UTF-8.
\<close>

section \<open>Arguments\<close>

record add_args =
  aa_domain :: string
  aa_ip :: ip_addr
  aa_port :: u16
  aa_https :: bool

record remove_args =
  rm_domain :: string

record resolve_args =
  rs_domain :: string

section \<open>Commands that send one request\<close>

type_synonym 's client = "ipc_request \<Rightarrow> 's \<Rightarrow> (ipc_error + ipc_response) \<times> 's"

datatype cmd_error = IpcFailure ipc_error | Bail string

type_synonym 's cmd_result = "(cmd_error + unit) \<times> 's \<times> string list"

definition scheme :: "bool \<Rightarrow> string" where
  "scheme secure = (if secure then ''https'' else ''http'')"

definition cmd_add :: "'s client \<Rightarrow> add_args \<Rightarrow> 's \<Rightarrow> 's cmd_result" where
  "cmd_add client args s =
     (case client (Add (aa_domain args) (socket_addr_new (aa_ip args) (aa_port args)) (aa_https args)) s of
        (Inl e, s') \<Rightarrow> (Inl (IpcFailure e), s', [])
      | (Inr Ok, s') \<Rightarrow> (Inr (), s',
          [''Added: '' @ scheme (aa_https args) @ ''://'' @ aa_domain args @ '' '' @ arrow @ '' '' @
           ip_to_string (aa_ip args) @ '':'' @ show_dec (unat (aa_port args))])
      | (Inr (Error e), s') \<Rightarrow> (Inl (Bail e), s', [])
      | (Inr _, s') \<Rightarrow> (Inr (), s', []))"

definition cmd_remove :: "'s client \<Rightarrow> remove_args \<Rightarrow> 's \<Rightarrow> 's cmd_result" where
  "cmd_remove client args s =
     (case client (Remove (rm_domain args)) s of
        (Inl e, s') \<Rightarrow> (Inl (IpcFailure e), s', [])
      | (Inr Ok, s') \<Rightarrow> (Inr (), s', [''Dns rule removed for: '' @ rm_domain args])
      | (Inr (Error e), s') \<Rightarrow> (Inl (Bail e), s', [])
      | (Inr _, s') \<Rightarrow> (Inr (), s', []))"

definition resolved_line :: "dns_rule \<Rightarrow> string" where
  "resolved_line r =
     ''Resolved: '' @ scheme (https r) @ ''://'' @ domain r @ '' '' @ arrow @ '' '' @
     ip_to_string (addr_ip (target r)) @ '':'' @ show_dec (unat (addr_port (target r)))"

definition cmd_resolve :: "'s client \<Rightarrow> resolve_args \<Rightarrow> 's \<Rightarrow> 's cmd_result" where
  "cmd_resolve client args s =
     (case client (Resolve (rs_domain args)) s of
        (Inl e, s') \<Rightarrow> (Inl (IpcFailure e), s', [])
      | (Inr (Resolved (Some r)), s') \<Rightarrow> (Inr (), s', [resolved_line r])
      | (Inr (Resolved None), s') \<Rightarrow> (Inr (), s', [''No DNS rule for '' @ CHR 0x27 # rs_domain args @ [CHR 0x27]])
      | (Inr (Error e), s') \<Rightarrow> (Inl (Bail e), s', [])
      | (Inr _, s') \<Rightarrow> (Inr (), s', []))"

definition cmd_status :: "bool \<Rightarrow> 's client \<Rightarrow> 's \<Rightarrow> 's cmd_result" where
  "cmd_status running client s =
     (if \<not> running then (Inr (), s, [''daemon: stopped''])
      else case client StatusReq s of
        (Inl e, s') \<Rightarrow> (Inl (IpcFailure e), s', [])
      | (Inr (StatusResp run n), s') \<Rightarrow>
          (Inr (), s', [''Daemon:  '' @ (if run then ''running'' else ''stopped''), ''Rules:   '' @ show_dec n])
      | (Inr (Error e), s') \<Rightarrow> (Inr (), s', [''error: '' @ e])
      | (Inr _, s') \<Rightarrow> (Inr (), s', []))"

section \<open>The table of rules\<close>

text \<open>The box drawing characters U+2550 to U+256C, by their last byte.\<close>

definition box :: "nat \<Rightarrow> string" where
  "box n = [char_of (226 :: nat), char_of (149 :: nat), char_of n]"

text \<open>The number of characters in a UTF-8 string: the bytes that do not continue a character.\<close>

definition continuation :: "char \<Rightarrow> bool" where
  "continuation c = (128 \<le> (of_char c :: nat) \<and> (of_char c :: nat) < 192)"

definition char_count :: "string \<Rightarrow> nat" where
  "char_count s = length (filter (\<lambda>c. \<not> continuation c) s)"

text \<open>\<^verbatim>\<open>{:<w$}\<close>: padded on the right to a number of characters, never cut.\<close>

definition pad :: "nat \<Rightarrow> string \<Rightarrow> string" where
  "pad w s = s @ replicate (w - char_count s) CHR '' ''"

definition rule_line :: "nat list \<Rightarrow> nat \<Rightarrow> nat \<Rightarrow> nat \<Rightarrow> string" where
  "rule_line ws l m r =
     box l @ box 144 @ concat (replicate (ws ! 0) (box 144)) @ box 144 @ box m @
     box 144 @ concat (replicate (ws ! 1) (box 144)) @ box 144 @ box m @
     box 144 @ concat (replicate (ws ! 2) (box 144)) @ box 144 @ box m @
     box 144 @ concat (replicate (ws ! 3) (box 144)) @ box 144 @ box r"

definition row_line :: "nat list \<Rightarrow> string list \<Rightarrow> string" where
  "row_line ws cells =
     box 145 @ '' '' @ pad (ws ! 0) (cells ! 0) @ '' '' @ box 145 @ '' '' @ pad (ws ! 1) (cells ! 1) @ '' '' @
     box 145 @ '' '' @ pad (ws ! 2) (cells ! 2) @ '' '' @ box 145 @ '' '' @ pad (ws ! 3) (cells ! 3) @ '' '' @ box 145"

definition rule_cells :: "dns_rule \<Rightarrow> string list" where
  "rule_cells r = [domain r, ip_to_string (addr_ip (target r)), show_dec (unat (addr_port (target r))),
     if https r then ''yes'' else ''no'']"

definition table_widths :: "dns_rule list \<Rightarrow> nat list" where
  "table_widths rs = [fold max (map (\<lambda>r. length (domain r)) rs) 6, 23, 5, 6]"

definition rule_table :: "dns_rule list \<Rightarrow> string list" where
  "rule_table rs =
     (let ws = table_widths rs
      in [rule_line ws 148 166 151, row_line ws [''DOMAIN'', ''IP'', ''PORT'', ''SECURE''], rule_line ws 160 172 163] @
         map (\<lambda>r. row_line ws (rule_cells r)) rs @ [rule_line ws 154 169 157])"

definition cmd_list :: "'s client \<Rightarrow> 's \<Rightarrow> 's cmd_result" where
  "cmd_list client s =
     (case client ListReq s of
        (Inl e, s') \<Rightarrow> (Inl (IpcFailure e), s', [])
      | (Inr (Rules rs), s') \<Rightarrow> (Inr (), s', if rs = [] then [''no rules configured''] else rule_table rs)
      | (Inr (Error e), s') \<Rightarrow> (Inr (), s', [''error: '' @ e])
      | (Inr _, s') \<Rightarrow> (Inr (), s', []))"

section \<open>Watching and cleaning\<close>

text \<open>A turn of the biased \<^verbatim>\<open>select!\<close>: an interrupt, an event, or the end of the connection.\<close>

datatype watch_turn = CtrlC | Got dns_event | Ended

fun event_line :: "dns_event \<Rightarrow> string" where
  "event_line (RuleAdded r) = ''Rule Added: '' @ rule_to_string r"
| "event_line (RuleRemoved r) = ''Rule Removed: '' @ rule_to_string r"
| "event_line (EphemeralAdded r) = ''Ephemeral Rule Added: '' @ rule_to_string r"
| "event_line (EphemeralRemoved r) = ''Ephemeral Rule Removed: '' @ rule_to_string r"
| "event_line DaemonStopped = ''Daemon Stopped''"

text \<open>The lines logged, and whether the loop has ended.\<close>

fun watch_loop :: "watch_turn list \<Rightarrow> string list \<times> bool" where
  "watch_loop [] = ([], False)"
| "watch_loop (CtrlC # ts) = ([''Ctrl-C Received, Stopping...'', ''Event Listening Stopped''], True)"
| "watch_loop (Ended # ts) = ([''Connection Closed, Stopping...'', ''Event Listening Stopped''], True)"
| "watch_loop (Got e # ts) = (let (ls, done) = watch_loop ts in (event_line e # ls, done))"

definition cmd_watch :: "(ipc_error + watch_turn list) \<Rightarrow> (cmd_error + bool) \<times> string list" where
  "cmd_watch subscription =
     (case subscription of
        Inl e \<Rightarrow> (Inl (IpcFailure e), [])
      | Inr ts \<Rightarrow> (let (ls, done) = watch_loop ts in (Inr done, ''Event Listening Started'' # ls)))"

definition cmd_clean :: "('w \<Rightarrow> 'w outcome) \<Rightarrow> 'w \<Rightarrow> (cmd_error + unit) \<times> 'w \<times> string list" where
  "cmd_clean revert w =
     (case revert w of
        (Inl e, w') \<Rightarrow> (Inl (Bail e), w', [''Reverting DNS configuration...''])
      | (Inr _, w') \<Rightarrow> (Inr (), w', [''Reverting DNS configuration...'', ''Cleaned up DNS configuration'']))"

section \<open>Facts\<close>

text \<open>A client that reaches the daemon with a request; the exchange over the wire is one.\<close>

definition reaches :: "app_state client \<Rightarrow> ipc_request \<Rightarrow> app_state \<Rightarrow> bool" where
  "reaches client req st = (client req st = (Inr (fst (handle req st)), snd (handle req st)))"

lemma reaches_send:
  assumes "app_inv st" "req \<noteq> Subscribe"
    and "carries_request w req" "reads_lines w [request_to_string w req]"
    and "carries_response w (fst (handle req st))" "reads_lines w [response_to_string w (fst (handle req st))]"
  shows "reaches (send w io_fine (Some (server_peer w handle io_fine))) req st"
  unfolding reaches_def using app.exchange assms by blast

lemma cli_resolve_name:
  assumes "cli_validate_domain_resolve s = Inr d"
  shows "validate_domain d" "to_lowercase d = d" "strip_prefix ''*.'' d = None" "cli_validate_domain s = Inr d"
proof -
  from assms have c: "cli_validate_domain s = Inr d" and w: "\<not> starts_with d ''*.''"
    by (auto simp: cli_validate_domain_resolve_def split: sum.splits if_splits)
  then show "cli_validate_domain s = Inr d" "strip_prefix ''*.'' d = None"
    by (simp_all add: strip_prefix_starts_with not_Some_eq [symmetric] del: not_Some_eq)
  from c validate_domain_lower [of s] show "validate_domain d" "to_lowercase d = d"
    by (auto simp: cli_validate_domain_def split: if_splits)
qed

text \<open>The ephemeral rules that would answer for a name before any persistent one.\<close>

definition ephemeral_free :: "inner_rule_store \<Rightarrow> string \<Rightarrow> bool" where
  "ephemeral_free s d = list_all (\<lambda>q. \<not> matches q d) (map snd (ephemeral_exact s) @ ephemeral_wildcard s)"

lemma find_None_all: "list_all (\<lambda>q. \<not> P q) xs \<Longrightarrow> find P xs = None"
  by (simp add: find_None_iff list_all_iff)

lemma resolve_new_rule:
  assumes "store_inv s" "\<not> is_wildcard r" "ephemeral_free s (domain r)"
  shows "inner_resolve (inner_add r s) (domain r) = Some r"
proof -
  have "map_of (ephemeral_exact s) (domain r) = None" "find_wildcard (ephemeral_wildcard s) (domain r) = None"
    using assms(1,3) by (simp_all add: store_inv_def exact_get_find ephemeral_free_def find_None_all find_wildcard_def)
  with assms(2) show ?thesis by (simp add: inner_resolve_def inner_add_def update_conv')
qed

section \<open>Which responses belong to which request\<close>

text \<open>The type of the protocol: a request is answered by a response of its kind or by an error.\<close>

fun response_for :: "ipc_request \<Rightarrow> ipc_response \<Rightarrow> bool" where
  "response_for ListReq resp = (case resp of Rules rs \<Rightarrow> True | _ \<Rightarrow> False)"
| "response_for StatusReq resp = (case resp of StatusResp run n \<Rightarrow> run | _ \<Rightarrow> False)"
| "response_for (Resolve d) resp = (case resp of Resolved r \<Rightarrow> True | Error e \<Rightarrow> True | _ \<Rightarrow> False)"
| "response_for Stop resp = (resp = Ok)"
| "response_for Subscribe resp = (resp = Ok)"
| "response_for req resp = (case resp of Ok \<Rightarrow> True | Error e \<Rightarrow> True | _ \<Rightarrow> False)"

lemma handle_typed: "response_for req (fst (handle req st))"
  by (cases req) (simp_all add: handler_defs split: option.split prod.split)

text \<open>A client that only passes on responses of the right kind.\<close>

definition typed_client :: "'s client \<Rightarrow> bool" where
  "typed_client client = (\<forall>req s. case client req s of (Inr resp, s') \<Rightarrow> response_for req resp | (Inl e, s') \<Rightarrow> True)"

lemma typed_clientD: "typed_client client \<Longrightarrow> client req s = (Inr resp, s') \<Longrightarrow> response_for req resp"
  unfolding typed_client_def by (drule spec [of _ req], drule spec [of _ s]) simp

section \<open>Watching\<close>

text \<open>A command that watches until the connection ends, on what the client receives.\<close>

definition watched :: "ipc_error + dns_event list \<Rightarrow> ipc_error + watch_turn list" where
  "watched = map_sum id (\<lambda>es. map Got es @ [Ended])"

lemma watch_loop_events: "watch_loop (map Got es @ [Ended]) =
  (map event_line es @ [''Connection Closed, Stopping...'', ''Event Listening Stopped''], True)"
  by (induction es) simp_all

section \<open>The width of the table\<close>

lemma char_count_simps [simp]:
  "char_count [] = 0" "char_count (xs @ ys) = char_count xs + char_count ys"
  "char_count (c # xs) = (if continuation c then 0 else 1) + char_count xs"
  by (simp_all add: char_count_def)

lemma char_count_le: "char_count s \<le> length s"
  by (simp add: char_count_def)

lemma char_count_box: "128 \<le> n \<Longrightarrow> n < 192 \<Longrightarrow> char_count (box n) = 1"
  by (simp add: box_def continuation_def)

lemma char_count_concat_box: "128 \<le> n \<Longrightarrow> n < 192 \<Longrightarrow> char_count (concat (replicate k (box n))) = k"
  by (induction k) (simp_all add: char_count_box)

lemma char_count_pad: "char_count (pad w s) = max w (char_count s)"
  by (simp add: pad_def char_count_def continuation_def)

lemma show_dec_length: "n < 10 ^ Suc k \<Longrightarrow> length (show_dec n) \<le> Suc k"
proof (induction k arbitrary: n)
  case (Suc k)
  then have "n div 10 < 10 ^ Suc k" by (simp add: div_less_iff_less_mult mult.commute)
  from Suc.IH [OF this] show ?case by (subst show_dec.simps) simp
qed (simp add: show_dec.simps)

lemma show_u8_length: "length (show_dec (unat (a :: u8))) \<le> 3"
  using show_dec_length [of "unat a" 2] unsigned_less [of a, where ?'a = nat] by simp

lemma show_u16_length: "length (show_dec (unat (p :: u16))) \<le> 5"
  using show_dec_length [of "unat p" 4] unsigned_less [of p, where ?'a = nat] by simp

lemma ipv4_length: "length (ipv4_to_string a) \<le> 15"
proof (cases a)
  case (Ipv4Addr b c d e)
  with show_u8_length [of b] show_u8_length [of c] show_u8_length [of d] show_u8_length [of e] show ?thesis by simp
qed

lemma fold_max_base: "m \<le> fold max xs (m :: nat)"
proof (induction xs arbitrary: m)
  case (Cons y ys)
  from Cons [of "max y m"] show ?case by simp
qed simp

lemma fold_max_ge: "x \<in> set (m # xs) \<Longrightarrow> x \<le> fold max xs (m :: nat)"
proof (induction xs arbitrary: m)
  case (Cons y ys)
  consider "x \<in> set ys" | "x \<le> max y m" using Cons.prems by auto
  then show ?case
  proof cases
    case 2
    then show ?thesis using order_trans [OF _ fold_max_base [of "max y m" ys], of x] by simp
  qed (use Cons.IH in simp)
qed simp

lemma rule_line_count:
  "list_all (\<lambda>n. 128 \<le> n \<and> n < 192) [l, m, r] \<Longrightarrow> char_count (rule_line [a, b, c, d] l m r) = a + b + c + d + 13"
  by (simp add: rule_line_def char_count_box char_count_concat_box)

lemma row_line_count:
  "char_count (row_line [a, b, c, d] [w, x, y, z]) =
     max a (char_count w) + max b (char_count x) + max c (char_count y) + max d (char_count z) + 13"
  by (simp add: row_line_def char_count_box char_count_pad continuation_def)

section \<open>Properties\<close>

text \<open>
  What the command line adds it also finds. If the name given is accepted by the resolve
  command, adding a rule for it succeeds and prints the rule, and resolving it afterwards prints
  the same rule, unless an ephemeral rule answers for the name first.
\<close>

theorem add_then_resolve:
  assumes "app_inv st" "cli_validate_domain_resolve name = Inr d" "ephemeral_free (store st) d"
    and "req = Add d (socket_addr_new ip port) secure" "reaches client req st"
    and "st' = snd (handle req st)" "reaches client (Resolve d) st'"
  shows "cmd_add client \<lparr>aa_domain = d, aa_ip = ip, aa_port = port, aa_https = secure\<rparr> st =
      (Inr (), st', [''Added: '' @ scheme secure @ ''://'' @ d @ '' '' @ arrow @ '' '' @ ip_to_string ip @ '':'' @ show_dec (unat port)]) \<and>
    cmd_resolve client \<lparr>rs_domain = d\<rparr> st' =
      (Inr (), st', [''Resolved: '' @ scheme secure @ ''://'' @ d @ '' '' @ arrow @ '' '' @ ip_to_string ip @ '':'' @ show_dec (unat port)])"
proof -
  let ?r = "dns_rule_new d (socket_addr_new ip port) secure"
  note v = cli_resolve_name [OF assms(2)]
  have h: "fst (handle req st) = Ok" "store st' = inner_add ?r (store st)"
    using v by (simp_all add: assms(4,6) handler_defs store_method_defs map_prod_def)
  have "\<not> is_wildcard ?r" "domain ?r = d" using v(3) by (simp_all add: is_wildcard_def dns_rule_new_def)
  then have "inner_resolve (store st') d = Some ?r"
    using resolve_new_rule [of "store st" ?r] assms(1,3) h(2) by simp
  then have "handle (Resolve d) st' = (Resolved (Some ?r), st')"
    using v by (simp add: handler_defs store_resolve_def)
  then show ?thesis
    using assms(4-7) h(1)
    by (simp add: cmd_add_def cmd_resolve_def reaches_def resolved_line_def dns_rule_new_def)
qed

theorem add_then_resolve_witness:
  "\<exists>st'. cmd_resolve (\<lambda>req st. (Inr (fst (handle req st)), snd (handle req st))) \<lparr>rs_domain = ''a.io''\<rparr> st' =
     (Inr (), st', [''Resolved: https://a.io '' @ arrow @ '' 127.0.0.1:3000''])"
proof -
  let ?c = "\<lambda>req st. (Inr (fst (handle req st)), snd (handle req st)) :: (ipc_error + ipc_response) \<times> app_state"
  have "cli_validate_domain ''a.io'' = Inr ''a.io''" by (subst cli_validate_eq_ok, simp, code_simp)
  then have "cli_validate_domain_resolve ''a.io'' = Inr ''a.io''"
    by (simp add: cli_validate_domain_resolve_def starts_with_def)
  moreover have "ephemeral_free (store (app_state_new False)) ''a.io''"
    by (simp add: ephemeral_free_def app_state_new_def inner_new_def)
  ultimately show ?thesis
    using add_then_resolve [OF app_inv_new _ _ refl _ refl, of "''a.io''" "''a.io''" False ?c "V4 ipv4_localhost" 3000 True]
    by (auto simp: reaches_def scheme_def show_dec.simps digit_def)
qed



text \<open>
  C34. Requests and responses fit together. The handler answers every request with a response of
  its kind or an error, in every state; so a client that passes on the handler's responses is
  typed, and with such a client no command that ends well does so through the arm for
  unexpected responses, which prints nothing.
\<close>

theorem protocol_types:
  assumes "typed_client client"
  shows "response_for req (fst (handle req st)) \<and>
    typed_client (\<lambda>req st. (Inr (fst (handle req st)), snd (handle req st))) \<and>
    (\<forall>r s' ls. (cmd_add client aa s = (Inr r, s', ls) \<or> cmd_remove client ra s = (Inr r, s', ls) \<or>
        cmd_resolve client sa s = (Inr r, s', ls) \<or> cmd_list client s = (Inr r, s', ls) \<or>
        cmd_status running client s = (Inr r, s', ls)) \<longrightarrow> ls \<noteq> [])"
proof (intro conjI allI impI; (elim disjE)?)
  show "response_for req (fst (handle req st))" by (rule handle_typed)
  show "typed_client (\<lambda>req st. (Inr (fst (handle req st)), snd (handle req st)))"
    by (simp add: typed_client_def handle_typed)
  note typed = typed_clientD [OF assms]
  fix r s' ls
  show "ls \<noteq> []" if "cmd_add client aa s = (Inr r, s', ls)"
    using that by (auto simp: cmd_add_def dest: typed split: prod.splits sum.splits ipc_response.splits)
  show "ls \<noteq> []" if "cmd_remove client ra s = (Inr r, s', ls)"
    using that by (auto simp: cmd_remove_def dest: typed split: prod.splits sum.splits ipc_response.splits)
  show "ls \<noteq> []" if "cmd_resolve client sa s = (Inr r, s', ls)"
    using that by (auto simp: cmd_resolve_def dest: typed split: prod.splits sum.splits ipc_response.splits option.splits)
  show "ls \<noteq> []" if "cmd_list client s = (Inr r, s', ls)"
    using that by (auto simp: cmd_list_def rule_table_def Let_def dest: typed split: prod.splits sum.splits ipc_response.splits if_splits)
  show "ls \<noteq> []" if "cmd_status running client s = (Inr r, s', ls)"
    using that by (auto simp: cmd_status_def dest: typed split: prod.splits sum.splits ipc_response.splits if_splits)
qed

theorem protocol_types_witness:
  "\<exists>(client :: app_state client). typed_client client \<and>
     cmd_status True client (app_state_new False) = (Inr (), app_state_new False, [''Daemon:  running'', ''Rules:   0'']) \<and>
     snd (snd (cmd_status True client (app_state_new False))) \<noteq> []"
proof -
  let ?c = "\<lambda>req (st :: app_state). (Inr (fst (handle req st)), snd (handle req st)) :: (ipc_error + ipc_response) \<times> app_state"
  have t: "typed_client ?c" by (simp add: typed_client_def handle_typed)
  have n: "store_len (store (app_state_new False)) = 0" by code_simp
  have run: "cmd_status True ?c (app_state_new False) = (Inr (), app_state_new False, [''Daemon:  running'', ''Rules:   0''])"
    by (simp add: cmd_status_def n show_dec.simps digit_def)
  with protocol_types [OF t] t show ?thesis by (intro exI [of _ ?c] conjI) (assumption | simp)+
qed

text \<open>
  The table lines up, for names of any length and with characters beyond ASCII, except
  where the text of an address is too long: the frame is as wide as the longest name (at least
  six) and 47, and a row exceeds it by what its address has beyond 23 characters. The text of an
  IPv4 address has at most 15; that of an IPv6 address can have 38 and break the frame.
\<close>

theorem table_lines:
  "(let w = fold max (map (\<lambda>r. length (domain r)) rs) 6
    in map char_count (rule_table rs) =
      [w + 47, w + 47, w + 47] @ map (\<lambda>r. w + 47 + (char_count (ip_to_string (addr_ip (target r))) - 23)) rs @ [w + 47]) \<and>
    char_count (ip_to_string (V4 a)) \<le> 15 \<and>
    char_count (ip_to_string (V6 (Ipv6Addr 0x2001 0xdb8 0x1111 0x2222 0x3333 0x4444 0x5555 0x6666))) = 38"
proof (intro conjI)
  define w where "w = fold max (map (\<lambda>r. length (domain r)) rs) 6"
  have row: "char_count (row_line [w, 23, 5, 6] (rule_cells r)) = w + 47 + (char_count (ip_to_string (addr_ip (target r))) - 23)"
    if "r \<in> set rs" for r
  proof -
    have "length (domain r) \<le> w" unfolding w_def using that by (intro fold_max_ge) simp
    then have "char_count (domain r) \<le> w" using char_count_le order_trans by blast
    moreover have "char_count (show_dec (unat (addr_port (target r)))) \<le> 5"
      using char_count_le show_u16_length order_trans by blast
    ultimately show ?thesis by (simp add: rule_cells_def row_line_count continuation_def max_def)
  qed
  have "6 \<le> w" unfolding w_def by (rule fold_max_ge) simp
  then have "char_count (row_line [w, 23, 5, 6] [''DOMAIN'', ''IP'', ''PORT'', ''SECURE'']) = w + 47"
    by (simp add: row_line_count continuation_def)
  with row show "let w = fold max (map (\<lambda>r. length (domain r)) rs) 6
    in map char_count (rule_table rs) =
      [w + 47, w + 47, w + 47] @ map (\<lambda>r. w + 47 + (char_count (ip_to_string (addr_ip (target r))) - 23)) rs @ [w + 47]"
    by (simp add: rule_table_def table_widths_def Let_def rule_line_count w_def [symmetric])
  show "char_count (ip_to_string (V4 a)) \<le> 15"
    using char_count_le [of "ipv4_to_string a"] ipv4_length [of a] by simp
  show "char_count (ip_to_string (V6 (Ipv6Addr 0x2001 0xdb8 0x1111 0x2222 0x3333 0x4444 0x5555 0x6666))) = 38"
    by (simp add: ipv6_to_string_def show_hex.simps digit_def continuation_def)
qed

end
