(* ===== verification/DaemonCmd.thy ===== *)
theory DaemonCmd
  imports Cli
begin

text \<open>
  Starting and stopping the daemon from the command line (cli/src/daemon.rs,
  cli/src/commands/daemon.rs).

  What lies outside is a record \<open>dm\<close> of functions on a state: the probe of the socket, the
  client, what happens while the command sleeps, the pid file and the service manager of the
  daemon library, and the ways to run the daemon.
\<close>

section \<open>State and arguments\<close>

record 's dm =
  dm_probe :: "'s \<Rightarrow> bool"
  dm_client :: "'s client"
  dm_sleep :: "nat \<Rightarrow> 's \<Rightarrow> 's"
  dm_pid_running :: "'s \<Rightarrow> bool"
  dm_service_installed :: "'s \<Rightarrow> bool"
  dm_service_stop :: "'s \<Rightarrow> (string + unit) \<times> 's"
  dm_running_pid :: "'s \<Rightarrow> nat option"
  dm_current_exe :: "string + string"
  dm_spawn :: "string list \<Rightarrow> 's \<Rightarrow> (string + unit) \<times> 's"
  dm_run :: "'s \<Rightarrow> (string + unit) \<times> 's"

record daemon_start_args =
  ds_background :: bool
  ds_no_background :: bool
  ds_daemon :: bool

definition DEFAULT_DAEMON_START_ARGS :: daemon_start_args where
  "DEFAULT_DAEMON_START_ARGS = \<lparr>ds_background = True, ds_no_background = False, ds_daemon = False\<rparr>"

datatype daemon_action = StartAction daemon_start_args | StopAction

section \<open>Operations\<close>

text \<open>The loops sleep a second, then probe, a bounded number of times.\<close>

fun poll_started :: "'s dm \<Rightarrow> nat \<Rightarrow> 's \<Rightarrow> bool \<times> 's" where
  "poll_started d 0 s = (False, s)"
| "poll_started d (Suc n) s =
     (let s' = dm_sleep d 1000 s in if dm_probe d s' then (True, s') else poll_started d n s')"

fun poll_stopped :: "'s dm \<Rightarrow> nat \<Rightarrow> 's \<Rightarrow> 's" where
  "poll_stopped d 0 s = s"
| "poll_stopped d (Suc n) s =
     (let s' = dm_sleep d 1000 s in if \<not> dm_probe d s' then s' else poll_stopped d n s')"

definition run_daemon :: "bool \<Rightarrow> 's dm \<Rightarrow> bool \<Rightarrow> 's \<Rightarrow> 's cmd_result" where
  "run_daemon su d background s =
     (if \<not> su then (Inl (Bail ''sidedns daemon start must be run as root/administrator''), s, [])
      else if \<not> background
      then (case dm_run d s of
              (Inl e, s') \<Rightarrow> (Inl (Bail e), s', [''Starting sidedns daemon (foreground)...''])
            | (Inr _, s') \<Rightarrow> (Inr (), s', [''Starting sidedns daemon (foreground)...'']))
      else
        let out = [''Starting sidedns daemon (background)...'']
        in case dm_current_exe d of
             Inl e \<Rightarrow> (Inl (Bail e), s, out)
           | Inr exe \<Rightarrow>
               (case dm_spawn d [exe, ''daemon'', ''start'', ''--daemon''] s of
                  (Inl e, s') \<Rightarrow> (Inl (Bail e), s', out)
                | (Inr _, s') \<Rightarrow>
                    (case poll_started d 10 s' of
                       (True, s'') \<Rightarrow> (Inr (), s'', out @ [''Waiting for daemon to start...'', ''Daemon started''])
                     | (False, s'') \<Rightarrow>
                         (Inl (Bail ''Daemon did not start within 10 seconds''), s'', out @ [''Waiting for daemon to start...'']))))"

definition cmd_stop :: "'s dm \<Rightarrow> 's \<Rightarrow> 's cmd_result" where
  "cmd_stop d s =
     (if \<not> (dm_probe d s \<or> dm_pid_running d s) then (Inr (), s, [''Daemon not running''])
      else if dm_probe d s
      then (case dm_client d Stop s of
              (Inl e, s') \<Rightarrow> (Inl (IpcFailure e), s', [])
            | (Inr _, s') \<Rightarrow> (Inr (), poll_stopped d 10 s', [''Daemon stopped'']))
      else if dm_service_installed d s
      then (case dm_service_stop d s of
              (Inl e, s') \<Rightarrow> (Inl (Bail (''Failed to stop daemon'' @ newline # e)), s', [])
            | (Inr _, s') \<Rightarrow> (Inr (), s', [''Daemon stopped'']))
      else (case dm_running_pid d s of
              Some pid \<Rightarrow> (Inr (), s, [''Can't stop daemon Pid: '' @ show_dec pid @ '', please kill it''])
            | None \<Rightarrow> (Inr (), s, [''Daemon stopped''])))"

definition cmd_start :: "bool \<Rightarrow> 's dm \<Rightarrow> daemon_start_args \<Rightarrow> 's \<Rightarrow> 's cmd_result" where
  "cmd_start su d args s =
     (let background = ds_background args \<and> \<not> ds_no_background args
      in if dm_probe d s then (Inr (), s, [''Daemon already running''])
         else if dm_pid_running d s
         then (case cmd_stop d s of
                 (Inl e, s', ls) \<Rightarrow> (Inl e, s', ''There are some problem! Restarting...'' # ls)
               | (Inr _, s', ls) \<Rightarrow>
                   (let (r, s'', ls') = run_daemon su d background s'
                    in (r, s'', ''There are some problem! Restarting...'' # ls @ ls')))
         else run_daemon su d background s)"

definition ensure_running :: "bool \<Rightarrow> 's dm \<Rightarrow> 's \<Rightarrow> 's cmd_result" where
  "ensure_running su d s = (if \<not> dm_probe d s then cmd_start su d DEFAULT_DAEMON_START_ARGS s else (Inr (), s, []))"

section \<open>Facts\<close>

lemma ex_first_or_later: "(\<exists>k\<in>{1..Suc n}. P k) \<longleftrightarrow> P 1 \<or> (\<exists>k\<in>{1..n}. P (Suc k))"
  by (metis One_nat_def Suc_le_mono atLeastAtMost_iff le_add1 le_zero_eq not0_implies_Suc not_less_eq_eq plus_1_eq_Suc)

lemma poll_started_iff:
  "fst (poll_started d n s) \<longleftrightarrow> (\<exists>k\<in>{1..n}. dm_probe d ((dm_sleep d 1000 ^^ k) s))"
proof (induction n arbitrary: s)
  case (Suc n)
  then show ?case unfolding ex_first_or_later by (simp add: Let_def funpow_swap1)
qed simp

lemma poll_started_probe: "poll_started d n s = (b, s') \<Longrightarrow> b \<Longrightarrow> dm_probe d s'"
  by (induction n arbitrary: s) (auto simp: Let_def split: if_splits)

lemma poll_stopped_iff:
  "\<not> dm_probe d (poll_stopped d (Suc n) s) \<longleftrightarrow> (\<exists>k\<in>{1..Suc n}. \<not> dm_probe d ((dm_sleep d 1000 ^^ k) s))"
proof (induction n arbitrary: s)
  case (Suc n)
  then show ?case unfolding ex_first_or_later [of "Suc n"] by (simp add: Let_def funpow_swap1)
qed (simp add: Let_def)

lemma run_daemon_background:
  "run_daemon su d True s = (Inr u, s', ls) \<Longrightarrow> dm_probe d s'"
  by (auto simp: run_daemon_def Let_def dest: poll_started_probe split: if_splits sum.splits prod.splits bool.splits)

section \<open>Properties\<close>


text \<open>
  Starting in the background succeeds exactly if the daemon answers one of ten probes a
  second apart; otherwise it is an error.
\<close>

theorem background_start_outcome:
  assumes "\<not> dm_probe d s" "\<not> dm_pid_running d s" "dm_current_exe d = Inr exe"
    and "dm_spawn d [exe, ''daemon'', ''start'', ''--daemon''] s = (Inr (), s1)"
  shows "fst (cmd_start True d DEFAULT_DAEMON_START_ARGS s) =
    (if \<exists>k\<in>{1..10}. dm_probe d ((dm_sleep d 1000 ^^ k) s1) then Inr ()
     else Inl (Bail ''Daemon did not start within 10 seconds''))"
  using assms poll_started_iff [of d 10 s1]
  by (auto simp: cmd_start_def DEFAULT_DAEMON_START_ARGS_def run_daemon_def Let_def split: prod.splits bool.splits)

text \<open>
  Stopping a daemon that answers: it is gone afterwards exactly if one of ten probes a
  second apart fails, but the command says that it has stopped in either case.
\<close>

theorem stop_outcome:
  assumes "dm_probe d s" "dm_client d Stop s = (Inr resp, s1)"
  shows "\<exists>s'. cmd_stop d s = (Inr (), s', [''Daemon stopped'']) \<and>
    (\<not> dm_probe d s' \<longleftrightarrow> (\<exists>k\<in>{1..10}. \<not> dm_probe d ((dm_sleep d 1000 ^^ k) s1)))"
  using assms poll_stopped_iff [of d 9 s1] by (simp add: cmd_stop_def)

section \<open>Examples\<close>

text \<open>A daemon as the number of seconds until it answers, none if it does not run.\<close>

definition toy_dm :: "nat option dm" where
  "toy_dm = \<lparr>dm_probe = \<lambda>s. s = Some 0, dm_client = \<lambda>req s. (Inr Ok, None),
     dm_sleep = \<lambda>ms s. map_option (\<lambda>n. n - 1) s, dm_pid_running = \<lambda>s. s \<noteq> None,
     dm_service_installed = \<lambda>s. False, dm_service_stop = \<lambda>s. (Inr (), None), dm_running_pid = \<lambda>s. None,
     dm_current_exe = Inr ''/bin/sidedns'', dm_spawn = \<lambda>args s. (Inr (), Some 3), dm_run = \<lambda>s. (Inr (), s)\<rparr>"

lemma toy_sleep: "(dm_sleep toy_dm 1000 ^^ k) (Some n) = Some (n - k)"
  by (induction k) (simp_all add: toy_dm_def)


theorem background_start_outcome_witness:
  "fst (cmd_start True toy_dm DEFAULT_DAEMON_START_ARGS None) = Inr ()"
proof -
  have "\<exists>k\<in>{1..10}. dm_probe toy_dm ((dm_sleep toy_dm 1000 ^^ k) (Some 3))"
    by (rule bexI [of _ 3]) (simp_all only: toy_sleep, simp_all add: toy_dm_def)
  moreover have "\<not> dm_probe toy_dm None" "\<not> dm_pid_running toy_dm None" "dm_current_exe toy_dm = Inr ''/bin/sidedns''"
    "dm_spawn toy_dm [''/bin/sidedns'', ''daemon'', ''start'', ''--daemon''] None = (Inr (), Some 3)"
    by (simp_all add: toy_dm_def)
  ultimately show ?thesis using background_start_outcome [of toy_dm None "''/bin/sidedns''" "Some 3"] by simp
qed

theorem stop_outcome_witness:
  "\<exists>s'. cmd_stop (toy_dm\<lparr>dm_client := \<lambda>req s. (Inr Ok, s)\<rparr>) (Some 0) = (Inr (), s', [''Daemon stopped'']) \<and>
     dm_probe (toy_dm\<lparr>dm_client := \<lambda>req s. (Inr Ok, s)\<rparr>) s'"
proof -
  let ?d = "toy_dm\<lparr>dm_client := \<lambda>req s. (Inr Ok, s)\<rparr>"
  have "dm_probe ?d ((dm_sleep ?d 1000 ^^ k) (Some 0))" for k using toy_sleep [of k 0] by (simp add: toy_dm_def)
  then show ?thesis
    using stop_outcome [of ?d "Some 0" Ok "Some 0"] by (auto simp: toy_dm_def)
qed

end
