(* ===== verification/RunCmd.thy ===== *)
theory RunCmd
  imports Run DaemonCmd
begin

text \<open>
  The run command (cli/src/commands/run.rs), which routes a name to a program while it runs, and
  the dispatch of all commands (cli/src/lib.rs).

  The program is started first; \<open>run_env\<close> holds what the command meets outside: how the start
  goes, the ports, the process table, the prompt, whether killing succeeds, what the daemon does
  in the meantime, and the turns of the final \<^verbatim>\<open>select!\<close>.
\<close>

section \<open>Arguments and environment\<close>

record run_args =
  ra_domain :: string
  ra_ip :: "ip_addr option"
  ra_port :: "u16 option"
  ra_https :: bool
  ra_detect_timeout :: u32
  ra_command :: "string list"

datatype child_status = ChildExited "int option" | ChildError string

datatype select_result = SelCtrlC | SelStopped | SelChild child_status

record run_turn =
  rt_ctrl_c :: bool
  rt_event :: "dns_event option option"
  rt_child :: "child_status option"

record 's run_env =
  re_spawn :: "string list \<Rightarrow> string + unit"
  re_binds :: "ip_addr \<Rightarrow> u16 \<Rightarrow> nat \<Rightarrow> bool"
  re_lag :: "nat \<Rightarrow> nat"
  re_now :: nat
  re_pid :: "pid option"
  re_procs :: process_table
  re_listeners :: "listener list option"
  re_prompt :: "socket_addr list \<Rightarrow> string + socket_addr"
  re_kill :: "string + unit"
  re_subscribe :: "'s \<Rightarrow> (ipc_error + unit) \<times> 's"
  re_meanwhile :: "'s \<Rightarrow> 's"
  re_turns :: "run_turn list"

section \<open>The command\<close>

text \<open>
  The task that follows the daemon's events ends on \<open>DaemonStopped\<close> and when the channel closes.
  The \<^verbatim>\<open>select!\<close> is biased: the interrupt first, then the daemon, then the program.
\<close>

definition stop_seen :: "dns_event option option \<Rightarrow> bool" where
  "stop_seen ev = (ev = Some None \<or> ev = Some (Some DaemonStopped))"

fun run_select :: "run_turn list \<Rightarrow> select_result option" where
  "run_select [] = None"
| "run_select (t # ts) =
     (if rt_ctrl_c t then Some SelCtrlC
      else if stop_seen (rt_event t) then Some SelStopped
      else case rt_child t of Some st \<Rightarrow> Some (SelChild st) | None \<Rightarrow> run_select ts)"

datatype target_result = Found ip_addr u16 | GiveUp | PromptFailed string

definition find_target :: "'s run_env \<Rightarrow> run_args \<Rightarrow> target_result" where
  "find_target env args =
     (let ip = (case ra_ip args of Some ip \<Rightarrow> ip | None \<Rightarrow> V4 ipv4_localhost)
      in case ra_port args of
           Some p \<Rightarrow>
             if \<not> fst (wait_for_port (re_binds env ip p) (re_lag env) (ra_detect_timeout args) (re_now env)) then GiveUp
             else Found ip p
         | None \<Rightarrow>
             (case re_pid env of
                None \<Rightarrow> GiveUp
              | Some p \<Rightarrow>
                  (case map snd (detect_network_processes (re_procs env) (re_listeners env) p) of
                     [] \<Rightarrow> GiveUp
                   | [a] \<Rightarrow> Found (addr_ip a) (addr_port a)
                   | as \<Rightarrow>
                       (case re_prompt env as of
                          Inl e \<Rightarrow> PromptFailed e
                        | Inr a \<Rightarrow> Found (addr_ip a) (addr_port a)))))"

text \<open>How the process of the command ends, the daemon's state, and whether the program still runs.\<close>

datatype run_end = Exit int | Returned "cmd_error + unit" | StillRunning

type_synonym 's run_result = "run_end \<times> 's \<times> bool"

definition killed :: "'s run_env \<Rightarrow> 's \<Rightarrow> 's run_result \<Rightarrow> 's run_result" where
  "killed env s k = (case re_kill env of Inl e \<Rightarrow> (Returned (Inl (Bail e)), s, True) | Inr _ \<Rightarrow> k)"

definition run_cleanup :: "'s client \<Rightarrow> string \<Rightarrow> int \<Rightarrow> bool \<Rightarrow> 's \<Rightarrow> 's run_result" where
  "run_cleanup client d exit_code alive s =
     (let (r, s') = client (RemoveEphemeral d) s
      in (if exit_code \<noteq> 0 then Exit exit_code else Returned (Inr ()), s', alive))"

fun child_code :: "child_status \<Rightarrow> int" where
  "child_code (ChildExited c) = (case c of Some n \<Rightarrow> n | None \<Rightarrow> 1)"
| "child_code (ChildError e) = 1"

definition run_wait :: "'s client \<Rightarrow> 's run_env \<Rightarrow> string \<Rightarrow> 's \<Rightarrow> 's run_result" where
  "run_wait client env d s =
     (case run_select (re_turns env) of
        None \<Rightarrow> (StillRunning, s, True)
      | Some SelCtrlC \<Rightarrow> killed env s (run_cleanup client d 0 False s)
      | Some SelStopped \<Rightarrow> killed env s (Exit 0, s, False)
      | Some (SelChild st) \<Rightarrow> run_cleanup client d (child_code st) (case st of ChildError e \<Rightarrow> True | ChildExited c \<Rightarrow> False) s)"

definition cmd_run :: "'s client \<Rightarrow> 's run_env \<Rightarrow> run_args \<Rightarrow> 's \<Rightarrow> 's run_result" where
  "cmd_run client env args s =
     (if ra_command args = [] then (Exit 1, s, False)
      else case re_spawn env (ra_command args) of
        Inl e \<Rightarrow> (Returned (Inl (Bail [])), s, False)
      | Inr _ \<Rightarrow>
          (case find_target env args of
             GiveUp \<Rightarrow> killed env s (Exit 1, s, False)
           | PromptFailed e \<Rightarrow> (Returned (Inl (Bail e)), s, True)
           | Found ip p \<Rightarrow>
               (case client (AddEphemeral (ra_domain args) (socket_addr_new ip p) (ra_https args)) s of
                  (Inl e, s') \<Rightarrow> (Returned (Inl (IpcFailure e)), s', True)
                | (Inr (Error e), s') \<Rightarrow> (Exit 1, s', True)
                | (Inr _, s') \<Rightarrow>
                    (case re_subscribe env s' of
                       (Inl e, s'') \<Rightarrow> (Returned (Inl (IpcFailure e)), s'', True)
                     | (Inr _, s'') \<Rightarrow> run_wait client env (ra_domain args) (re_meanwhile env s'')))))"

section \<open>Dispatch\<close>

datatype cert_action = CertInstall cert_install_args | CertUninstall | CertTrust cert_trust_args | CertUntrust cert_trust_args

datatype command =
    CmdCert cert_action
  | CmdList
  | CmdAdd add_args
  | CmdRemove remove_args
  | CmdResolve resolve_args
  | CmdDaemon "daemon_action option"
  | CmdRun run_args
  | CmdStatus
  | CmdClean
  | CmdWatch

record ('s, 'x) world =
  w_daemon :: 's
  w_machine :: "'x machine"

record ('s, 'x, 'ca, 'cert) cli_env =
  ce_su :: bool
  ce_os :: os
  ce_systemd :: bool
  ce_pki :: "('ca, 'cert) pki"
  ce_dir :: string
  ce_stores :: "'x trust_store_impl list"
  ce_dm :: "'s dm"
  ce_subscription :: "'s \<Rightarrow> ipc_error + watch_turn list"
  ce_run :: "'s run_env"

definition on_daemon :: "('s, 'x) world \<Rightarrow> 's cmd_result \<Rightarrow> run_end \<times> ('s, 'x) world \<times> string list" where
  "on_daemon w res = (case res of (r, s, ls) \<Rightarrow> (Returned r, w\<lparr>w_daemon := s\<rparr>, ls))"

definition on_machine :: "('s, 'x) world \<Rightarrow> 'x cert_result \<Rightarrow> run_end \<times> ('s, 'x) world \<times> string list" where
  "on_machine w res = (case res of (r, m, ls) \<Rightarrow> (Returned (map_sum Bail id r), w\<lparr>w_machine := m\<rparr>, ls))"

definition with_daemon ::
    "('s, 'x, 'ca, 'cert) cli_env \<Rightarrow> ('s, 'x) world \<Rightarrow> (('s, 'x) world \<Rightarrow> run_end \<times> ('s, 'x) world \<times> string list) \<Rightarrow>
     run_end \<times> ('s, 'x) world \<times> string list" where
  "with_daemon env w k =
     (case ensure_running (ce_su env) (ce_dm env) (w_daemon w) of
        (Inl e, s, ls) \<Rightarrow> (Returned (Inl e), w\<lparr>w_daemon := s\<rparr>, ls)
      | (Inr _, s, ls) \<Rightarrow> (let (r, w', ls') = k (w\<lparr>w_daemon := s\<rparr>) in (r, w', ls @ ls')))"

fun execute :: "('s, 'x, 'ca, 'cert) cli_env \<Rightarrow> command \<Rightarrow> ('s, 'x) world \<Rightarrow> run_end \<times> ('s, 'x) world \<times> string list" where
  "execute env (CmdCert (CertInstall args)) w =
     on_machine w (cert_install (ce_su env) (ce_os env) (ce_pki env) (ce_dir env) (ce_stores env) args (w_machine w))"
| "execute env (CmdCert CertUninstall) w =
     on_machine w (cert_uninstall (ce_su env) (ce_os env) (ce_pki env) (ce_dir env) (ce_stores env) (w_machine w))"
| "execute env (CmdCert (CertTrust args)) w =
     on_machine w (cert_trust (ce_su env) (ce_pki env) (ce_dir env) (ce_stores env) args (w_machine w))"
| "execute env (CmdCert (CertUntrust args)) w =
     on_machine w (cert_untrust (ce_su env) (ce_pki env) (ce_dir env) (ce_stores env) args (w_machine w))"
| "execute env (CmdAdd args) w =
     with_daemon env w (\<lambda>w. on_daemon w (cmd_add (dm_client (ce_dm env)) args (w_daemon w)))"
| "execute env (CmdRemove args) w =
     with_daemon env w (\<lambda>w. on_daemon w (cmd_remove (dm_client (ce_dm env)) args (w_daemon w)))"
| "execute env CmdList w = with_daemon env w (\<lambda>w. on_daemon w (cmd_list (dm_client (ce_dm env)) (w_daemon w)))"
| "execute env (CmdResolve args) w =
     with_daemon env w (\<lambda>w. on_daemon w (cmd_resolve (dm_client (ce_dm env)) args (w_daemon w)))"
| "execute env CmdStatus w =
     on_daemon w (cmd_status (dm_probe (ce_dm env) (w_daemon w)) (dm_client (ce_dm env)) (w_daemon w))"
| "execute env (CmdDaemon action) w =
     (case (case action of Some a \<Rightarrow> a | None \<Rightarrow> StartAction DEFAULT_DAEMON_START_ARGS) of
        StartAction args \<Rightarrow> on_daemon w (cmd_start (ce_su env) (ce_dm env) args (w_daemon w))
      | StopAction \<Rightarrow> on_daemon w (cmd_stop (ce_dm env) (w_daemon w)))"
| "execute env (CmdRun args) w =
     with_daemon env w (\<lambda>w. case cmd_run (dm_client (ce_dm env)) (ce_run env) args (w_daemon w) of
       (r, s, alive) \<Rightarrow> (r, w\<lparr>w_daemon := s\<rparr>, []))"
| "execute env CmdWatch w =
     with_daemon env w (\<lambda>w. case cmd_watch (ce_subscription env (w_daemon w)) of
       (Inl e, ls) \<Rightarrow> (Returned (Inl e), w, ls)
     | (Inr ended, ls) \<Rightarrow> (if ended then Returned (Inr ()) else StillRunning, w, ls))"
| "execute env CmdClean w =
     (case cmd_clean (linux_revert (ce_os env) (ce_systemd env)) (m_files (w_machine w)) of
        (r, fs, ls) \<Rightarrow> (Returned r, w\<lparr>w_machine := (w_machine w)\<lparr>m_files := fs\<rparr>\<rparr>, ls))"

text \<open>
  The process the background start spawns recognises itself by its arguments and its
  environment, and runs the daemon in place of a command.
\<close>

definition handle_daemon_start :: "command option \<Rightarrow> bool \<Rightarrow> bool" where
  "handle_daemon_start parsed daemon_env =
     (case parsed of
        Some (CmdDaemon (Some (StartAction args))) \<Rightarrow> daemon_env \<and> ds_background args \<and> ds_daemon args
      | _ \<Rightarrow> False)"

section \<open>Facts\<close>

lemma cli_name:
  assumes "cli_validate_domain name = Inr d"
  shows "validate_domain d" "to_lowercase d = d"
  using assms validate_domain_lower [of name] by (auto simp: cli_validate_domain_def split: if_splits)

lemma handle_ephemeral:
  assumes "app_inv st" "cli_validate_domain name = Inr d"
  shows "fst (handle (AddEphemeral d t secure) st) = Ok"
    "ephemeral (store (snd (handle (AddEphemeral d t secure) st))) = (ephemeral (store st))(d \<mapsto> dns_rule_new d t secure)"
    "persistent (store (snd (handle (AddEphemeral d t secure) st))) = persistent (store st)"
    "ephemeral (store (snd (handle (RemoveEphemeral d) st))) = (ephemeral (store st))(d := None)"
    "persistent (store (snd (handle (RemoveEphemeral d) st))) = persistent (store st)"
proof -
  note v = cli_name [OF assms(2)] and i = app_inv_store [OF assms(1)]
  have "domain (dns_rule_new d t secure) = d" by (simp add: dns_rule_new_def)
  with v eph.layer_add [OF i, of "dns_rule_new d t secure"]
  show "fst (handle (AddEphemeral d t secure) st) = Ok"
    "ephemeral (store (snd (handle (AddEphemeral d t secure) st))) = (ephemeral (store st))(d \<mapsto> dns_rule_new d t secure)"
    "persistent (store (snd (handle (AddEphemeral d t secure) st))) = persistent (store st)"
    by (simp_all add: handler_defs store_method_defs)
  from v eph.layer_remove [OF i, of d]
  show "ephemeral (store (snd (handle (RemoveEphemeral d) st))) = (ephemeral (store st))(d := None)"
    "persistent (store (snd (handle (RemoveEphemeral d) st))) = persistent (store st)"
    by (simp_all add: handler_defs store_method_defs split: option.split)
qed

text \<open>The end of a run that cleans up: an interrupt with a successful kill, or the program's exit.\<close>

definition orderly_end :: "'s run_env \<Rightarrow> bool" where
  "orderly_end env =
     (case run_select (re_turns env) of
        Some SelCtrlC \<Rightarrow> re_kill env = Inr ()
      | Some (SelChild (ChildExited c)) \<Rightarrow> True
      | _ \<Rightarrow> False)"

lemma run_wait_orderly:
  "orderly_end env \<Longrightarrow> \<exists>r. run_wait client env d s = (r, snd (client (RemoveEphemeral d) s), False)"
  by (auto simp: orderly_end_def run_wait_def killed_def run_cleanup_def split_beta Let_def
    split: option.splits select_result.splits child_status.splits)

section \<open>Properties\<close>

text \<open>
  C15. The rule lives as long as the program. When the program has started and its address is
  known, the rule for the name is in force (and the persistent rules are untouched) before the
  command waits; and when the run ends in order, by an interrupt or by the program's exit, the
  program is gone, the ephemeral rule is gone, and every other rule is as the daemon had it.
\<close>

theorem run_rule_lifetime:
  assumes inv: "app_inv st" "app_inv st2" and name: "cli_validate_domain name = Inr (ra_domain args)"
    and go: "ra_command args \<noteq> []" "re_spawn env (ra_command args) = Inr ()" "find_target env args = Found ip p"
    and add: "req = AddEphemeral (ra_domain args) (socket_addr_new ip p) (ra_https args)" "reaches client req st"
    and sub: "st1 = snd (handle req st)" "re_subscribe env st1 = (Inr (), st1)" "st2 = re_meanwhile env st1"
    and fin: "orderly_end env" "reaches client (RemoveEphemeral (ra_domain args)) st2"
  shows "ephemeral (store st1) = (ephemeral (store st))(ra_domain args \<mapsto> dns_rule_new (ra_domain args) (socket_addr_new ip p) (ra_https args)) \<and>
    persistent (store st1) = persistent (store st) \<and>
    (\<exists>r st3. cmd_run client env args st = (r, st3, False) \<and>
      ephemeral (store st3) = (ephemeral (store st2))(ra_domain args := None) \<and> persistent (store st3) = persistent (store st2))"
proof -
  note a = handle_ephemeral [OF inv(1) name] and b = handle_ephemeral [OF inv(2) name]
  have "client req st = (Inr Ok, st1)" using add sub(1) a(1) by (simp add: reaches_def)
  then have "cmd_run client env args st = run_wait client env (ra_domain args) st2"
    using go add(1) sub by (simp add: cmd_run_def)
  moreover from run_wait_orderly [OF fin(1)] obtain r where
    "run_wait client env (ra_domain args) st2 = (r, snd (client (RemoveEphemeral (ra_domain args)) st2), False)" by blast
  moreover have "snd (client (RemoveEphemeral (ra_domain args)) st2) = snd (handle (RemoveEphemeral (ra_domain args)) st2)"
    using fin(2) by (simp add: reaches_def)
  ultimately show ?thesis using a(2,3) b(4,5) add(1) sub(1) by auto
qed

text \<open>
  Without an address no rule is made: if no port opens in time, nothing listens or the prompt
  fails, the daemon is not asked, whatever its state; and unless the prompt fails, the program
  has been killed or the attempt to kill it is the error returned.
\<close>

theorem run_without_target:
  assumes "\<And>ip p. find_target env args \<noteq> Found ip p"
  shows "fst (snd (cmd_run client env args s)) = s \<and>
    (find_target env args = GiveUp \<and> re_kill env = Inr () \<longrightarrow> \<not> snd (snd (cmd_run client env args s)))"
  using assms by (cases "find_target env args") (auto simp: cmd_run_def killed_def split: sum.splits)

text \<open>
  If the daemon cannot be reached or refuses the rule, or the subscription fails after the
  rule was added, the command ends and leaves the program running, in the last case with its
  rule.
\<close>

theorem run_failure_leaves_program:
  assumes "ra_command args \<noteq> []" "re_spawn env (ra_command args) = Inr ()" "find_target env args = Found ip p"
    and "client (AddEphemeral (ra_domain args) (socket_addr_new ip p) (ra_https args)) s = (resp, s')"
  shows "(resp = Inl e \<longrightarrow> cmd_run client env args s = (Returned (Inl (IpcFailure e)), s', True)) \<and>
    (resp = Inr (Error msg) \<longrightarrow> cmd_run client env args s = (Exit 1, s', True)) \<and>
    (resp = Inr Ok \<and> re_subscribe env s' = (Inl e, s') \<longrightarrow> cmd_run client env args s = (Returned (Inl (IpcFailure e)), s', True))"
  using assms by (simp add: cmd_run_def)

text \<open>
  The background start and the process it spawns fit together: the spawned process, given
  the arguments the command passes it and its environment, runs the daemon; no command that a
  user gives without that environment does.
\<close>

theorem daemon_process_recognised:
  "handle_daemon_start (Some (CmdDaemon (Some (StartAction (DEFAULT_DAEMON_START_ARGS\<lparr>ds_daemon := True\<rparr>))))) True \<and>
   \<not> handle_daemon_start parsed False \<and>
   \<not> handle_daemon_start (Some (CmdDaemon (Some (StartAction DEFAULT_DAEMON_START_ARGS)))) True"
  by (simp add: handle_daemon_start_def DEFAULT_DAEMON_START_ARGS_def split: option.split command.split daemon_action.split)

section \<open>Examples\<close>

abbreviation direct_client :: "app_state client" where
  "direct_client \<equiv> \<lambda>req st. (Inr (fst (handle req st)), snd (handle req st))"

text \<open>A program that opens its port at once and exits after an event.\<close>

definition toy_env :: "'s run_env" where
  "toy_env = \<lparr>re_spawn = \<lambda>cmd. Inr (), re_binds = \<lambda>ip p t. False, re_lag = \<lambda>t. 0, re_now = 0, re_pid = Some 7, re_procs = [(8, Some 7)],
     re_listeners = Some [], re_prompt = \<lambda>as. Inl ''no prompt'', re_kill = Inr (), re_subscribe = \<lambda>s. (Inr (), s),
     re_meanwhile = id,
     re_turns = [\<lparr>rt_ctrl_c = False, rt_event = Some (Some (RuleAdded (local_rule ''b.io'' 1 False))), rt_child = None\<rparr>,
       \<lparr>rt_ctrl_c = False, rt_event = None, rt_child = Some (ChildExited (Some 0))\<rparr>]\<rparr>"

definition toy_args :: run_args where
  "toy_args = \<lparr>ra_domain = ''a.io'', ra_ip = None, ra_port = Some 3000, ra_https = False, ra_detect_timeout = 5, ra_command = [''serve'']\<rparr>"

lemma toy_target: "find_target toy_env toy_args = Found (V4 ipv4_localhost) 3000"
  by (simp add: find_target_def toy_env_def toy_args_def wait_for_port_def wait_loop_hit)

lemma toy_go: "ra_command toy_args \<noteq> []" "re_spawn toy_env (ra_command toy_args) = Inr ()"
  by (simp_all add: toy_args_def toy_env_def)

theorem run_rule_lifetime_witness:
  "\<exists>(st1 :: app_state) r st3. ephemeral (store st1) ''a.io'' = Some (local_rule ''a.io'' 3000 False) \<and>
     cmd_run direct_client toy_env toy_args (app_state_new False) = (r, st3, False) \<and> ephemeral (store st3) ''a.io'' = None"
proof -
  let ?req = "AddEphemeral (ra_domain toy_args) (socket_addr_new (V4 ipv4_localhost) 3000) (ra_https toy_args)"
  let ?st1 = "snd (handle ?req (app_state_new False))"
  have name: "cli_validate_domain ''a.io'' = Inr (ra_domain toy_args)"
    unfolding toy_args_def run_args.simps by (subst cli_validate_eq_ok, simp, code_simp)
  have env: "re_subscribe toy_env ?st1 = (Inr (), ?st1)" "?st1 = re_meanwhile toy_env ?st1" "orderly_end toy_env"
    by (simp_all add: toy_env_def orderly_end_def stop_seen_def)
  have r: "reaches direct_client req st" for req st by (simp add: reaches_def)
  have "app_inv ?st1" by (intro handle_inv app_inv_new)
  note life = run_rule_lifetime [where client = direct_client, OF app_inv_new this name toy_go toy_target refl r refl env r]
  have d: "ra_domain toy_args = ''a.io''" "ra_https toy_args = False" by (simp_all add: toy_args_def)
  have "ephemeral (store ?st1) ''a.io'' = Some (local_rule ''a.io'' 3000 False)"
    using conjunct1 [OF life] by (simp add: d del: handle.simps)
  moreover from life obtain r st3 where "cmd_run direct_client toy_env toy_args (app_state_new False) = (r, st3, False)"
    and "ephemeral (store st3) = (ephemeral (store ?st1))(ra_domain toy_args := None)" by blast
  moreover from this have "ephemeral (store st3) ''a.io'' = None" by (simp add: d)
  ultimately show ?thesis by blast
qed

theorem run_without_target_witness:
  "fst (snd (cmd_run direct_client toy_env (toy_args\<lparr>ra_port := None\<rparr>) (app_state_new False))) = app_state_new False \<and>
   \<not> snd (snd (cmd_run direct_client toy_env (toy_args\<lparr>ra_port := None\<rparr>) (app_state_new False)))"
proof -
  have "find_target (toy_env :: app_state run_env) (toy_args\<lparr>ra_port := None\<rparr>) = GiveUp"
    by (simp add: find_target_def toy_args_def toy_env_def detect_network_processes_def del: collect_pids.simps)
  then show ?thesis
    using run_without_target [of toy_env "toy_args\<lparr>ra_port := None\<rparr>" direct_client "app_state_new False"]
    by (simp add: toy_env_def)
qed

theorem run_failure_leaves_program_witness:
  "cmd_run (\<lambda>req st. (Inl ConnectFailed, st)) toy_env toy_args (app_state_new False) =
     (Returned (Inl (IpcFailure ConnectFailed)), app_state_new False, True)"
  using run_failure_leaves_program [OF toy_go toy_target, of "\<lambda>req st. (Inl ConnectFailed, st)" "app_state_new False"] by blast

end
