(* ===== verification/Entry.thy ===== *)
theory Entry
  imports RunCmd
begin

text \<open>
  The processes of the program: the paths and names of core/src/config.rs, logging
  (core/src/logging.rs), the head of the command line (cli/src/lib.rs) and \<^verbatim>\<open>main\<close>
  (src/main.rs and cli/src/main.rs, which are the same).

  Argument parsing by clap, the daemon library and the start of the async runtime are
  parameters; printing is assumed to succeed.
\<close>

section \<open>Configuration\<close>

definition APP_NAME :: string where
  "APP_NAME = ''SideDNS''"

definition DAEMON_ENV :: string where
  "DAEMON_ENV = ''SIDEDNS_DAEMON_PROCESS''"

definition IPC_SOCKET_PATH :: "platform \<Rightarrow> string" where
  "IPC_SOCKET_PATH pf =
     (if pf = Windows then [backslash, backslash] @ ''.'' @ backslash # ''pipe'' @ backslash # ''sidedns'' else ''/tmp/sidedns.sock'')"

text \<open>The local data directory of the user, if the system has one, is a parameter.\<close>

definition APP_DATA_DIR :: "platform \<Rightarrow> string option \<Rightarrow> string" where
  "APP_DATA_DIR pf data_local_dir =
     join_dir pf (case data_local_dir of Some d \<Rightarrow> d | None \<Rightarrow> ''.'') (to_lowercase APP_NAME)"

definition ROOT_CERTIFICATE_DIR :: "platform \<Rightarrow> string option \<Rightarrow> string" where
  "ROOT_CERTIFICATE_DIR pf data_local_dir = join_dir pf (APP_DATA_DIR pf data_local_dir) ''Certificates''"

text \<open>The two functions of \<^verbatim>\<open>certs::ca\<close> with the default directory.\<close>

definition default_load :: "platform \<Rightarrow> string option \<Rightarrow> ('ca, 'cert) pki \<Rightarrow> files \<Rightarrow> string + 'ca" where
  "default_load pf dl pki fs = ca_load pki (ROOT_CERTIFICATE_DIR pf dl) fs"

definition default_load_or_generate ::
    "platform \<Rightarrow> string option \<Rightarrow> os \<Rightarrow> ('ca, 'cert) pki \<Rightarrow> (string \<Rightarrow> string option) \<Rightarrow> files \<Rightarrow> (string + 'ca) \<times> files" where
  "default_load_or_generate pf dl h pki env fs = ca_load_or_generate h pki env (ROOT_CERTIFICATE_DIR pf dl) fs"

section \<open>Logging\<close>

text \<open>
  The directories created and the layers of the subscriber; a file layer has its directory, the
  prefix of its daily files and its filter. The filter is that of the environment if it is valid.
  Installing a second subscriber in a process panics.
\<close>

datatype build = DebugBuild | ReleaseBuild

datatype log_layer =
    StdoutLayer string
  | FileLayer string string string

definition log_filter :: "string option \<Rightarrow> string" where
  "log_filter env_filter = (case env_filter of Some f \<Rightarrow> f | None \<Rightarrow> ''info'')"

definition logging_init :: "platform \<Rightarrow> build \<Rightarrow> string option \<Rightarrow> string option \<Rightarrow> bool \<Rightarrow> string list \<times> log_layer list" where
  "logging_init pf b dl env_filter verbose =
     (let filt = log_filter env_filter; stdout_layer = StdoutLayer filt
      in case b of
           DebugBuild \<Rightarrow> ([], [stdout_layer])
         | ReleaseBuild \<Rightarrow>
             (let file_layer = FileLayer (APP_DATA_DIR pf dl) (to_lowercase APP_NAME @ ''.log'') filt
              in ([APP_DATA_DIR pf dl], if verbose then [file_layer, stdout_layer] else [file_layer])))"

definition init_stdout :: "string option \<Rightarrow> log_layer list" where
  "init_stdout env_filter = [StdoutLayer (log_filter env_filter)]"

text \<open>The calls of a process that install a subscriber, in order.\<close>

datatype log_call = LogInit bool | LogStdout

definition run_daemon_logs :: "bool \<Rightarrow> bool \<Rightarrow> log_call list" where
  "run_daemon_logs su background = (if \<not> su then [] else if \<not> background then [LogInit True] else [])"

definition cmd_start_logs :: "bool \<Rightarrow> 's dm \<Rightarrow> daemon_start_args \<Rightarrow> 's \<Rightarrow> log_call list" where
  "cmd_start_logs su d args s =
     (let background = ds_background args \<and> \<not> ds_no_background args
      in if dm_probe d s then []
         else if dm_pid_running d s
         then (case fst (cmd_stop d s) of Inl e \<Rightarrow> [] | Inr _ \<Rightarrow> run_daemon_logs su background)
         else run_daemon_logs su background)"

definition ensure_running_logs :: "bool \<Rightarrow> 's dm \<Rightarrow> 's \<Rightarrow> log_call list" where
  "ensure_running_logs su d s = (if \<not> dm_probe d s then cmd_start_logs su d DEFAULT_DAEMON_START_ARGS s else [])"

fun command_logs :: "bool \<Rightarrow> 's dm \<Rightarrow> command \<Rightarrow> 's \<Rightarrow> log_call list" where
  "command_logs su d (CmdCert action) s = []"
| "command_logs su d CmdStatus s = []"
| "command_logs su d CmdClean s = []"
| "command_logs su d (CmdDaemon action) s =
     (case (case action of Some a \<Rightarrow> a | None \<Rightarrow> StartAction DEFAULT_DAEMON_START_ARGS) of
        StartAction args \<Rightarrow> cmd_start_logs su d args s
      | StopAction \<Rightarrow> [])"
| "command_logs su d cmd s =
     ensure_running_logs su d s @
     (case fst (ensure_running su d s) of
        Inl e \<Rightarrow> []
      | Inr _ \<Rightarrow> (case cmd of CmdRun args \<Rightarrow> [LogStdout] | CmdWatch \<Rightarrow> [LogStdout] | _ \<Rightarrow> []))"

section \<open>The command line\<close>

datatype error_kind = DisplayHelp | DisplayVersion | OtherKind

type_synonym cli_parser = "string list \<Rightarrow> (error_kind \<times> string) + command"

definition execute_from_command_line ::
    "('s, 'x, 'ca, 'cert) cli_env \<Rightarrow> cli_parser \<Rightarrow> string \<Rightarrow> string list \<Rightarrow> ('s, 'x) world \<Rightarrow>
     run_end \<times> ('s, 'x) world \<times> string list" where
  "execute_from_command_line env parse long_help args w =
     (if length args = 1 then (Exit 0, w, [long_help])
      else case parse args of
        Inl (kind, msg) \<Rightarrow>
          (case kind of
             DisplayHelp \<Rightarrow> (Exit 0, w, [msg])
           | DisplayVersion \<Rightarrow> (Exit 0, w, [msg])
           | _ \<Rightarrow> (Exit 1, w, [msg]))
      | Inr cmd \<Rightarrow> execute env cmd w)"

section \<open>The processes\<close>

record daemon_config =
  dc_name :: string
  dc_executable :: string
  dc_service_args :: "string list"
  dc_pid_dir :: string

text \<open>The description of the package is left out.\<close>

definition build_daemon :: "platform \<Rightarrow> string + string \<Rightarrow> string list \<Rightarrow> string option \<Rightarrow> daemon_config" where
  "build_daemon pf current_exe args dl =
     \<lparr>dc_name = APP_NAME,
      dc_executable = (case current_exe of
          Inr exe \<Rightarrow> exe
        | Inl e \<Rightarrow> (case args of a # _ \<Rightarrow> a | [] \<Rightarrow> to_lowercase APP_NAME)),
      dc_service_args = [''daemon'', ''start''],
      dc_pid_dir = join_dir pf (APP_DATA_DIR pf dl) ''logs''\<rparr>"

text \<open>
  What a process is given: its environment variable, the runtime it can start, the directory
  of the user, clap, and \<^verbatim>\<open>Daemon::start\<close> of the daemon library, which gets the closure to run.
\<close>

record 's process_env =
  pe_platform :: platform
  pe_daemon_env :: bool
  pe_runtime :: "string + unit"
  pe_data_local_dir :: "string option"
  pe_parse :: cli_parser
  pe_long_help :: string
  pe_daemon_start :: "daemon_config \<Rightarrow> bool \<Rightarrow> ('s \<Rightarrow> (string + unit) \<times> 's) \<Rightarrow> 's \<Rightarrow> (string + unit) \<times> 's"
  pe_ipc_text :: "ipc_error \<Rightarrow> string"

definition daemon_closure :: "'s process_env \<Rightarrow> 's dm \<Rightarrow> 's \<Rightarrow> (string + unit) \<times> 's" where
  "daemon_closure pe d s = (case pe_runtime pe of Inl e \<Rightarrow> (Inl e, s) | Inr _ \<Rightarrow> dm_run d s)"

definition parsed :: "'s process_env \<Rightarrow> string list \<Rightarrow> command option" where
  "parsed pe args = (case pe_parse pe args of Inl e \<Rightarrow> None | Inr cmd \<Rightarrow> Some cmd)"

fun error_text :: "'s process_env \<Rightarrow> cmd_error \<Rightarrow> string" where
  "error_text pe (Bail e) = e"
| "error_text pe (IpcFailure e) = pe_ipc_text pe e"

datatype process_end = Exited int | Alive

definition main ::
    "('s, 'x, 'ca, 'cert) cli_env \<Rightarrow> 's process_env \<Rightarrow> string list \<Rightarrow> ('s, 'x) world \<Rightarrow>
     process_end \<times> ('s, 'x) world \<times> string list" where
  "main env pe args w =
     (if handle_daemon_start (parsed pe args) (pe_daemon_env pe)
      then (case pe_daemon_start pe (build_daemon (pe_platform pe) (dm_current_exe (ce_dm env)) args (pe_data_local_dir pe)) False
                   (daemon_closure pe (ce_dm env)) (w_daemon w) of
              (Inl e, s) \<Rightarrow> (Exited 1, w\<lparr>w_daemon := s\<rparr>, [''Daemon error: '' @ e])
            | (Inr _, s) \<Rightarrow> (Exited 0, w\<lparr>w_daemon := s\<rparr>, []))
      else case pe_runtime pe of
        Inl e \<Rightarrow> (Exited 1, w, [''Error: '' @ e])
      | Inr _ \<Rightarrow>
          (case execute_from_command_line env (pe_parse pe) (pe_long_help pe) args w of
             (Returned (Inl e), w', ls) \<Rightarrow> (Exited 1, w', ls @ [''error: '' @ error_text pe e])
           | (Returned (Inr _), w', ls) \<Rightarrow> (Exited 0, w', ls)
           | (Exit c, w', ls) \<Rightarrow> (Exited c, w', ls)
           | (StillRunning, w', ls) \<Rightarrow> (Alive, w', ls)))"

text \<open>The subscribers a process installs.\<close>

definition process_logs :: "('s, 'x, 'ca, 'cert) cli_env \<Rightarrow> 's process_env \<Rightarrow> string list \<Rightarrow> ('s, 'x) world \<Rightarrow> log_call list" where
  "process_logs env pe args w =
     (if handle_daemon_start (parsed pe args) (pe_daemon_env pe) then [LogInit False]
      else case pe_runtime pe of
        Inl e \<Rightarrow> []
      | Inr _ \<Rightarrow>
          if length args = 1 then []
          else (case pe_parse pe args of Inl e \<Rightarrow> [] | Inr cmd \<Rightarrow> command_logs (ce_su env) (ce_dm env) cmd (w_daemon w)))"

section \<open>Facts\<close>

lemma default_cert_dir: "\<exists>b. ROOT_CERTIFICATE_DIR pf dl = b @ ''Certificates''"
  unfolding ROOT_CERTIFICATE_DIR_def join_dir_def by (metis append.assoc append_Cons append_Nil)

text \<open>On Unix the paths of \<open>Ca\<close> are those the code joins.\<close>

lemma default_cert_path:
  assumes "pf \<noteq> Windows"
  shows "join_dir pf (ROOT_CERTIFICATE_DIR pf dl) ''SideDNS-CA.crt'' = cert_path (ROOT_CERTIFICATE_DIR pf dl)"
    "join_dir pf (ROOT_CERTIFICATE_DIR pf dl) ''SideDNS-CA.key'' = cert_key_path (ROOT_CERTIFICATE_DIR pf dl)"
  using default_cert_dir [of pf dl] assms by (auto simp: join_dir_def cert_path_def cert_key_path_def)

text \<open>Without the superuser the ways to run the daemon do not matter.\<close>

lemma poll_stopped_inert [simp]:
  "poll_stopped (d\<lparr>dm_spawn := sp, dm_run := rn\<rparr>) n s = poll_stopped d n s"
  by (induction n arbitrary: s) (simp_all add: Let_def)

lemma cmd_stop_inert [simp]: "cmd_stop (d\<lparr>dm_spawn := sp, dm_run := rn\<rparr>) s = cmd_stop d s"
  by (simp add: cmd_stop_def split: prod.split sum.split)

lemma cmd_start_inert [simp]: "cmd_start False (d\<lparr>dm_spawn := sp, dm_run := rn\<rparr>) args s = cmd_start False d args s"
  by (simp add: cmd_start_def run_daemon_def Let_def split: prod.split sum.split)

lemma ensure_running_inert [simp]: "ensure_running False (d\<lparr>dm_spawn := sp, dm_run := rn\<rparr>) s = ensure_running False d s"
  by (simp add: ensure_running_def)

lemma with_daemon_inert:
  assumes "\<not> ce_su env" "\<And>w. k' w = k w"
  shows "with_daemon (env\<lparr>ce_dm := (ce_dm env)\<lparr>dm_spawn := sp, dm_run := rn\<rparr>\<rparr>) w k' = with_daemon env w k"
  using assms by (simp add: with_daemon_def split: prod.split sum.split)

lemma execute_inert:
  assumes "\<not> ce_su env"
  shows "execute (env\<lparr>ce_dm := (ce_dm env)\<lparr>dm_spawn := sp, dm_run := rn\<rparr>\<rparr>) cmd w = execute env cmd w"
proof (cases cmd)
  case (CmdCert a)
  then show ?thesis by (cases a) simp_all
next
  case (CmdDaemon a)
  then show ?thesis using assms by (simp split: option.split daemon_action.split)
qed (use assms in \<open>simp_all add: with_daemon_inert\<close>)

lemma with_daemon_machine:
  assumes "\<And>v. w_machine (fst (snd (k v))) = w_machine v"
  shows "w_machine (fst (snd (with_daemon env w k))) = w_machine w"
  using assms by (simp add: with_daemon_def split_beta split: sum.split)

lemma on_daemon_machine [simp]: "w_machine (fst (snd (on_daemon w res))) = w_machine w"
  by (simp add: on_daemon_def split: prod.split)

lemma execute_machine:
  assumes "\<not> ce_su env" "cmd \<noteq> CmdClean"
  shows "w_machine (fst (snd (execute env cmd w))) = w_machine w"
proof (cases cmd)
  case (CmdCert a)
  then show ?thesis
    using assms by (cases a)
      (simp_all add: on_machine_def cert_install_def cert_uninstall_def cert_trust_def cert_untrust_def)
next
  case (CmdDaemon a)
  then show ?thesis by (simp split: option.split daemon_action.split)
qed (use assms in \<open>auto intro!: with_daemon_machine split: prod.split sum.split\<close>)

text \<open>The daemon a command starts for itself runs in the background and logs elsewhere.\<close>

lemma ensure_running_silent: "ensure_running_logs su d s = []"
  by (simp add: ensure_running_logs_def cmd_start_logs_def run_daemon_logs_def DEFAULT_DAEMON_START_ARGS_def split: sum.split)

lemma command_logs_once: "length (command_logs su d cmd s) \<le> 1"
  by (cases cmd) (simp_all add: ensure_running_silent cmd_start_logs_def run_daemon_logs_def Let_def
    split: sum.split option.split daemon_action.split)

section \<open>Properties\<close>


text \<open>
  No process installs two log subscribers, which would panic: neither a command that first
  starts the daemon and then logs itself, nor one that restarts the daemon, nor the daemon.
\<close>

theorem logging_once: "length (process_logs env pe args w) \<le> 1"
  using command_logs_once by (auto simp: process_logs_def split: sum.split)

text \<open>
  In a debug build \<^verbatim>\<open>verbose\<close> is ignored: there is no file layer.
\<close>

theorem debug_build_logs_no_file:
  "logging_init pf DebugBuild dl f verbose = ([], [StdoutLayer (log_filter f)]) \<and>
   snd (logging_init pf ReleaseBuild dl f True) =
     [FileLayer (APP_DATA_DIR pf dl) ''sidedns.log'' (log_filter f), StdoutLayer (log_filter f)]"
proof -
  have "to_lowercase APP_NAME = ''sidedns''" by code_simp
  then show ?thesis by (simp add: logging_init_def Let_def)
qed

text \<open>
  C35. The run command passes the program's exit code on. With a running daemon that accepts the
  rule, a process called to run a program that exits by itself exits with the program's code (1
  if a signal ended it), after it has asked the daemon to remove the rule, and changes nothing
  else.
\<close>

theorem run_exit_code:
  assumes "pe_runtime pe = Inr ()" "length args \<noteq> 1" "pe_parse pe args = Inr (CmdRun ra)" "dm_probe (ce_dm env) (w_daemon w)"
    and "ra_command ra \<noteq> []" "re_spawn (ce_run env) (ra_command ra) = Inr ()" "find_target (ce_run env) ra = Found ip p"
    and "dm_client (ce_dm env) (AddEphemeral (ra_domain ra) (socket_addr_new ip p) (ra_https ra)) (w_daemon w) = (Inr Ok, s1)"
    and "re_subscribe (ce_run env) s1 = (Inr (), s2)" "run_select (re_turns (ce_run env)) = Some (SelChild (ChildExited code))"
  shows "main env pe args w = (Exited (case code of Some n \<Rightarrow> n | None \<Rightarrow> 1),
    w\<lparr>w_daemon := snd (dm_client (ce_dm env) (RemoveEphemeral (ra_domain ra)) (re_meanwhile (ce_run env) s2))\<rparr>, [])"
proof -
  let ?s = "snd (dm_client (ce_dm env) (RemoveEphemeral (ra_domain ra)) (re_meanwhile (ce_run env) s2))"
  let ?c = "case code of Some n \<Rightarrow> n | None \<Rightarrow> 1"
  have "cmd_run (dm_client (ce_dm env)) (ce_run env) ra (w_daemon w) =
      (if ?c \<noteq> 0 then Exit ?c else Returned (Inr ()), ?s, False)"
    using assms(5-10) by (simp add: cmd_run_def run_wait_def run_cleanup_def split_beta)
  then have "execute env (CmdRun ra) w = (if ?c \<noteq> 0 then Exit ?c else Returned (Inr ()), w\<lparr>w_daemon := ?s\<rparr>, [])"
    using assms(4) by (simp add: with_daemon_def ensure_running_def)
  with assms(1-3) show ?thesis
    by (simp add: main_def execute_from_command_line_def parsed_def handle_daemon_start_def)
qed

section \<open>Examples\<close>

definition sample_process :: "command \<Rightarrow> 's process_env" where
  "sample_process cmd = \<lparr>pe_platform = Linux, pe_daemon_env = False, pe_runtime = Inr (), pe_data_local_dir = Some ''/root/.local/share'',
     pe_parse = \<lambda>args. Inr cmd, pe_long_help = ''Usage: sidedns <COMMAND>'', pe_daemon_start = \<lambda>cfg fg k. k,
     pe_ipc_text = \<lambda>e. ''IPC connection was closed unexpectedly''\<rparr>"

definition sample_dm :: "'s client \<Rightarrow> 's dm" where
  "sample_dm client = \<lparr>dm_probe = \<lambda>s. True, dm_client = client, dm_sleep = \<lambda>n s. s, dm_pid_running = \<lambda>s. True,
     dm_service_installed = \<lambda>s. False, dm_service_stop = \<lambda>s. (Inl ''no service'', s), dm_running_pid = \<lambda>s. Some 4,
     dm_current_exe = Inr ''/usr/bin/sidedns'', dm_spawn = \<lambda>args s. (Inr (), s), dm_run = \<lambda>s. (Inr (), s)\<rparr>"

definition sample_cli :: "bool \<Rightarrow> 's dm \<Rightarrow> ('s, unit, string, unit) cli_env" where
  "sample_cli su d = \<lparr>ce_su = su, ce_os = all_ok, ce_systemd = True,
     ce_pki = \<lparr>issuer_from_pem = \<lambda>c k. Inr k, generate_ca = \<lambda>ps. Inr (''cert'', ''key'', ''key''), signed_by = \<lambda>k ca ps. Inr ()\<rparr>,
     ce_dir = ROOT_CERTIFICATE_DIR Linux (Some ''/root/.local/share''), ce_stores = [], ce_dm = d,
     ce_subscription = \<lambda>s. Inr [], ce_run = toy_env\<rparr>"


theorem run_exit_code_witness:
  "\<forall>m. \<exists>w'. main (sample_cli True (sample_dm direct_client)) (sample_process (CmdRun toy_args)) [''sidedns'', ''run'', ''-d'', ''a.io'', ''serve'']
     \<lparr>w_daemon = app_state_new False, w_machine = m\<rparr> = (Exited 0, w', [])"
proof
  fix m :: "unit machine"
  let ?w = "\<lparr>w_daemon = app_state_new False, w_machine = m\<rparr> :: (app_state, unit) world"
  have "validate_domain ''a.io''" by (subst validate_domain_eq_ok, simp, code_simp)
  moreover have "to_lowercase ''a.io'' = ''a.io''" by code_simp
  ultimately have "fst (handle (AddEphemeral ''a.io'' a b) (app_state_new False)) = Ok" for a b
    by (simp add: handler_defs store_method_defs)
  then have add: "dm_client (ce_dm (sample_cli True (sample_dm direct_client))) (AddEphemeral (ra_domain toy_args) (socket_addr_new (V4 ipv4_localhost) 3000) (ra_https toy_args)) (w_daemon ?w) =
      (Inr Ok, snd (handle (AddEphemeral (ra_domain toy_args) (socket_addr_new (V4 ipv4_localhost) 3000) (ra_https toy_args)) (app_state_new False)))"
    by (simp add: sample_cli_def sample_dm_def toy_args_def del: handle.simps)
  have run: "ce_run (sample_cli True (sample_dm direct_client)) = toy_env" by (simp add: sample_cli_def)
  have sel: "run_select (re_turns (ce_run (sample_cli True (sample_dm direct_client)))) = Some (SelChild (ChildExited (Some 0)))"
    by (simp add: sample_cli_def toy_env_def stop_seen_def)
  from run_exit_code [OF _ _ _ _ toy_go(1) _ _ add _ sel, of "sample_process (CmdRun toy_args)" "[''sidedns'', ''run'', ''-d'', ''a.io'', ''serve'']"]
  show "\<exists>w'. main (sample_cli True (sample_dm direct_client)) (sample_process (CmdRun toy_args)) [''sidedns'', ''run'', ''-d'', ''a.io'', ''serve''] ?w = (Exited 0, w', [])"
    by (simp add: run toy_go toy_target sample_process_def) (simp add: sample_cli_def sample_dm_def toy_env_def)
qed

end
