(* ===== verification/Runner.thy ===== *)
theory Runner
  imports Daemon SysDns
begin

text \<open>
  The whole daemon (core/src/runner.rs): the five tasks, the main task and the parallel
  connections, as a step relation in which any enabled step may come next.

  A connection handles its request in two steps, as in the code: it writes the store, then sends
  the event. Every receiver has its own queue. The task of the system's DNS configuration is
  taken through its phases; \<open>mgr_wake\<close> is one turn of its loop. A task of a server may end at any
  time: on an error, or because of the token. The relation is over any manager; the invariant
  is proved once, from the contract of managers, and used for two of them.
\<close>

section \<open>State\<close>

datatype mgr_phase =
    MgrInit
  | MgrSubscribed "dns_event list"
  | MgrLoop "dns_event list"
  | MgrEnded mgr_end

datatype main_phase = MainSelect | MainJoin | MainDone

record ('ca, 'cert, 'd, 'w) system =
  y_daemon :: "('ca, 'cert, 'd) daemon"
  y_tasks :: "(ipc_request \<times> dns_event list) list"
  y_mgr :: mgr_phase
  y_world :: 'w
  y_ipc :: bool
  y_dns :: bool
  y_proxy :: bool
  y_main :: main_phase

abbreviation y_app :: "('ca, 'cert, 'd, 'w) system \<Rightarrow> app_state" where
  "y_app s \<equiv> d_app (y_daemon s)"

definition system_start ::
    "'d confy_load \<Rightarrow> ('ca, 'cert) signer \<Rightarrow> bool \<Rightarrow> 'ca option \<Rightarrow> 'd \<Rightarrow> 'w \<Rightarrow> ('ca, 'cert, 'd, 'w) system" where
  "system_start lod sign installed ca disk w =
     \<lparr>y_daemon = daemon_start lod sign installed ca disk, y_tasks = [], y_mgr = MgrInit, y_world = w,
      y_ipc = True, y_dns = True, y_proxy = True, y_main = MainSelect\<rparr>"

section \<open>Steps\<close>

text \<open>An event reaches the receivers that have subscribed.\<close>

fun mgr_post :: "dns_event list \<Rightarrow> mgr_phase \<Rightarrow> mgr_phase" where
  "mgr_post es (MgrSubscribed q) = MgrSubscribed (q @ es)"
| "mgr_post es (MgrLoop q) = MgrLoop (q @ es)"
| "mgr_post es ph = ph"

definition write_store :: "ipc_request \<Rightarrow> ('ca, 'cert, 'd, 'w) system \<Rightarrow> ('ca, 'cert, 'd, 'w) system" where
  "write_store r s = s\<lparr>y_daemon := (y_daemon s)\<lparr>d_app := (y_app s)\<lparr>store := store (snd (handle r (y_app s)))\<rparr>\<rparr>,
     y_tasks := y_tasks s @ [(r, task_events r (y_app s))]\<rparr>"

definition send_events :: "bool \<Rightarrow> dns_event list \<Rightarrow> ('ca, 'cert, 'd, 'w) system \<Rightarrow> ('ca, 'cert, 'd, 'w) system" where
  "send_events stop es s = s\<lparr>y_daemon := (y_daemon s)\<lparr>
       d_app := (y_app s)\<lparr>events := events (y_app s) @ es, token := (token (y_app s) \<or> stop)\<rparr>,
       d_queue := d_queue (y_daemon s) @ es\<rparr>,
     y_mgr := mgr_post es (y_mgr s)\<rparr>"

text \<open>One turn of the biased loop of the manager's task.\<close>

definition mgr_wake ::
    "(string list \<Rightarrow> 'w \<Rightarrow> 'w outcome) \<Rightarrow> ('w \<Rightarrow> 'w outcome) \<Rightarrow> app_state \<Rightarrow> dns_event list \<Rightarrow> 'w \<Rightarrow> mgr_phase \<times> 'w" where
  "mgr_wake ap rv st q w =
     (if token st then (MgrEnded MgrDone, snd (rv w))
      else if length q > channel_capacity then (MgrLoop (drop (length q - channel_capacity) q), w)
      else case q of
        [] \<Rightarrow> (MgrLoop [], w)
      | e # es \<Rightarrow>
          if rule_event e
          then (case ap (snapshot_all_domains st) w of
                  (Inl err, w') \<Rightarrow> (MgrEnded (MgrError err), w')
                | (Inr _, w') \<Rightarrow> (MgrLoop es, w'))
          else (MgrLoop es, w))"

text \<open>The same turn as \<open>SysDns\<close> sees it, and that both models of the task agree on it.\<close>

definition turn_of :: "app_state \<Rightarrow> dns_event list \<Rightarrow> mgr_turn" where
  "turn_of st q = \<lparr>mgr_cancelled = token st,
     mgr_recv = (if length q > channel_capacity then Some (Lagged (length q - channel_capacity))
                 else case q of [] \<Rightarrow> None | e # es \<Rightarrow> Some (Received e)),
     mgr_domains = snapshot_all_domains st\<rparr>"

definition finish :: "('w \<Rightarrow> 'w outcome) \<Rightarrow> mgr_end \<times> 'w \<Rightarrow> mgr_end \<times> 'w" where
  "finish rv res = (case res of (MgrDone, w) \<Rightarrow> (MgrDone, snd (rv w)) | other \<Rightarrow> other)"

lemma mgr_wake_turn:
  "finish rv (manager_loop ap (turn_of st q # ts) w) =
     (case mgr_wake ap rv st q w of
        (MgrEnded e, w') \<Rightarrow> (e, w')
      | (ph, w') \<Rightarrow> finish rv (manager_loop ap ts w'))"
  by (auto simp: turn_of_def mgr_wake_def finish_def split: list.split sum.split prod.split)

definition mgr_first_apply ::
    "(string list \<Rightarrow> 'w \<Rightarrow> 'w outcome) \<Rightarrow> app_state \<Rightarrow> dns_event list \<Rightarrow> 'w \<Rightarrow> mgr_phase \<times> 'w" where
  "mgr_first_apply ap st q w =
     (case ap (snapshot_all_domains st) w of
        (Inl err, w') \<Rightarrow> (MgrEnded (MgrError err), w')
      | (Inr _, w') \<Rightarrow> (MgrLoop q, w'))"

fun own_step :: "daemon_step \<Rightarrow> bool" where
  "own_step (Request r) = False"
| "own_step x = True"

fun mgr_ended :: "mgr_phase \<Rightarrow> bool" where
  "mgr_ended (MgrEnded e) = True"
| "mgr_ended ph = False"

definition tasks_ended :: "('ca, 'cert, 'd, 'w) system \<Rightarrow> bool" where
  "tasks_ended s = (\<not> y_ipc s \<and> \<not> y_dns s \<and> \<not> y_proxy s \<and> mgr_ended (y_mgr s) \<and> \<not> d_watching (y_daemon s))"

text \<open>
  Lookups, TLS handshakes and the watch task are the steps of \<open>Daemon\<close> that are not requests. They
  stay possible after a server has ended, which only adds runs.
\<close>

inductive sys_step ::
    "(string list \<Rightarrow> 'w \<Rightarrow> 'w outcome) \<Rightarrow> ('w \<Rightarrow> 'w outcome) \<Rightarrow> 'd confy_store \<Rightarrow> ('ca, 'cert) signer \<Rightarrow>
     ('ca, 'cert, 'd, 'w) system \<Rightarrow> ('ca, 'cert, 'd, 'w) system \<Rightarrow> bool"
  for ap rv sto sign where
  req_write: "y_main s \<noteq> MainDone \<Longrightarrow> sys_step ap rv sto sign s (write_store r s)"
| req_send: "y_main s \<noteq> MainDone \<Longrightarrow> y_tasks s = ts @ (r, es) # us \<Longrightarrow>
     sys_step ap rv sto sign s ((send_events (r = Stop) es s)\<lparr>y_tasks := ts @ us\<rparr>)"
| own: "y_main s \<noteq> MainDone \<Longrightarrow> own_step x \<Longrightarrow>
     sys_step ap rv sto sign s (s\<lparr>y_daemon := daemon_exec sto sign x (y_daemon s)\<rparr>)"
| mgr_subscribe: "y_main s \<noteq> MainDone \<Longrightarrow> y_mgr s = MgrInit \<Longrightarrow>
     sys_step ap rv sto sign s (s\<lparr>y_world := snd (rv (y_world s)), y_mgr := MgrSubscribed []\<rparr>)"
| mgr_apply: "y_main s \<noteq> MainDone \<Longrightarrow> y_mgr s = MgrSubscribed q \<Longrightarrow>
     mgr_first_apply ap (y_app s) q (y_world s) = (ph, w) \<Longrightarrow>
     sys_step ap rv sto sign s (s\<lparr>y_world := w, y_mgr := ph\<rparr>)"
| mgr_turn: "y_main s \<noteq> MainDone \<Longrightarrow> y_mgr s = MgrLoop q \<Longrightarrow>
     mgr_wake ap rv (y_app s) q (y_world s) = (ph, w) \<Longrightarrow>
     sys_step ap rv sto sign s (s\<lparr>y_world := w, y_mgr := ph\<rparr>)"
| ipc_end: "y_ipc s \<Longrightarrow> sys_step ap rv sto sign s (s\<lparr>y_ipc := False\<rparr>)"
| dns_end: "y_dns s \<Longrightarrow> sys_step ap rv sto sign s (s\<lparr>y_dns := False\<rparr>)"
| proxy_end: "y_proxy s \<Longrightarrow> sys_step ap rv sto sign s (s\<lparr>y_proxy := False\<rparr>)"
| main_signal: "y_main s = MainSelect \<Longrightarrow>
     sys_step ap rv sto sign s (s\<lparr>y_daemon := (y_daemon s)\<lparr>d_app := on_wake Sigterm (y_app s)\<rparr>, y_main := MainJoin\<rparr>)"
| main_cancelled: "y_main s = MainSelect \<Longrightarrow> token (y_app s) \<Longrightarrow>
     sys_step ap rv sto sign s ((send_events False [DaemonStopped] s)\<lparr>y_main := MainJoin\<rparr>)"
| main_join: "y_main s = MainJoin \<Longrightarrow> tasks_ended s \<Longrightarrow> sys_step ap rv sto sign s (s\<lparr>y_main := MainDone\<rparr>)"

section \<open>What a silent request changes\<close>

lemma inner_remove_ephemeral_absent:
  assumes "store_inv s" "ephemeral s n = None"
  shows "snd (inner_remove_ephemeral n s) = s"
proof (cases "position (\<lambda>q. domain q = n) (ephemeral_wildcard s)")
  case None
  with assms layer_of_delete(2) [OF None, of "ephemeral_exact s"] have "map_of (ephemeral_exact s) n = None"
    by (simp add: ephemeral_def)
  with None show ?thesis by (simp add: inner_remove_ephemeral_def Let_def map_of_eq_None_iff AList.delete_id)
next
  case (Some i)
  with assms layer_of_swap_remove(2) [OF _ _ Some] show ?thesis by (simp add: store_inv_def ephemeral_def)
qed

lemma task_events_spec: "app_inv st \<Longrightarrow> task_events r st = spec_events r (store_abs (store st))"
  by (simp add: task_events_def handle_events)

lemma handle_silent:
  assumes "app_inv st" "task_events r st = []"
  shows "store (snd (handle r st)) = store st"
proof -
  from assms have "spec_events r (store_abs (store st)) = []" by (simp only: task_events_spec)
  with assms(1) show ?thesis unfolding handle_store
    by (cases r) (auto simp: spec_events_def store_method_defs map_prod_def split_beta
       inner_remove_absent inner_remove_ephemeral_absent split: option.splits)
qed

lemma task_events_rules: "app_inv st \<Longrightarrow> r \<noteq> Stop \<Longrightarrow> list_all rule_event (task_events r st)"
  by (cases r) (auto simp: task_events_spec spec_events_def split: option.split)

section \<open>The invariant\<close>

fun mgr_queue :: "mgr_phase \<Rightarrow> dns_event list" where
  "mgr_queue (MgrSubscribed q) = q"
| "mgr_queue (MgrLoop q) = q"
| "mgr_queue ph = []"

lemma mgr_queue_post: "set (mgr_queue (mgr_post es ph)) \<subseteq> set (mgr_queue ph) \<union> set es"
  by (cases ph) auto

text \<open>No event is on its way to the manager, and no connection is about to send one.\<close>

definition settled :: "('ca, 'cert, 'd, 'w) system \<Rightarrow> bool" where
  "settled s = (y_mgr s = MgrLoop [] \<and> list_all (\<lambda>(r, es). es = []) (y_tasks s) \<and> \<not> token (y_app s))"

text \<open>Until the token is cancelled the manager only receives events about rules.\<close>

definition events_inv :: "('ca, 'cert, 'd, 'w) system \<Rightarrow> bool" where
  "events_inv s = (app_inv (y_app s) \<and>
     (\<not> token (y_app s) \<longrightarrow> list_all rule_event (mgr_queue (y_mgr s))) \<and>
     list_all (\<lambda>(r, es). r \<noteq> Stop \<longrightarrow> list_all rule_event es) (y_tasks s))"

lemma daemon_exec_app [simp]: "own_step x \<Longrightarrow> d_app (daemon_exec sto sign x d) = d_app d"
  by (cases x) (auto simp: watch_step_def split: option.split list.split prod.split)

lemma mgr_wake_queue:
  "mgr_wake ap rv st q w = (ph, w') \<Longrightarrow> set (mgr_queue ph) \<subseteq> set q"
  by (auto simp: mgr_wake_def dest: in_set_dropD split: if_splits list.splits prod.splits sum.splits)

lemma mgr_first_apply_queue: "mgr_first_apply ap st q w = (ph, w') \<Longrightarrow> set (mgr_queue ph) \<subseteq> set q"
  by (auto simp: mgr_first_apply_def split: prod.splits sum.splits)

lemma events_inv_step:
  assumes "sys_step ap rv sto sign s t" "events_inv s"
  shows "events_inv t"
  using assms
proof (induction rule: sys_step.induct)
  case (req_write s r)
  then have i: "app_inv (y_app s)" by (simp add: events_inv_def)
  from handle_inv [OF i, of r] have "app_inv ((y_app s)\<lparr>store := store (snd (handle r (y_app s)))\<rparr>)"
    by (subst app_inv_cong [of _ "snd (handle r (y_app s))"]) simp_all
  with req_write task_events_rules [OF i, of r] show ?case by (simp add: events_inv_def write_store_def)
next
  case (req_send s ts r es us)
  with mgr_queue_post [of es "y_mgr s"] show ?case
    by (auto simp: events_inv_def send_events_def list_all_iff dest!: subsetD)
next
  case (mgr_apply s q ph w)
  with mgr_first_apply_queue [OF mgr_apply(3)] show ?case by (auto simp: events_inv_def list_all_iff)
next
  case (mgr_turn s q ph w)
  with mgr_wake_queue [OF mgr_turn(3)] show ?case by (auto simp: events_inv_def list_all_iff)
next
  case (main_cancelled s)
  then show ?case by (simp add: events_inv_def send_events_def)
qed (auto simp: events_inv_def)

lemma events_inv_start: "config_ok lod disk \<Longrightarrow> events_inv (system_start lod sign installed ca disk w)"
  using daemon_inv_start [of lod disk sign installed ca]
  by (simp add: events_inv_def system_start_def daemon_inv_def)

lemma snapshot_all_domains_store: "store st = store st' \<Longrightarrow> snapshot_all_domains st = snapshot_all_domains st'"
  by (simp add: snapshot_all_domains_def)

text \<open>A request or an event that leaves the system settled has changed no rule.\<close>

lemma settled_write:
  assumes "settled (write_store r s)" "app_inv (y_app s)"
  shows "settled s \<and> store (y_app (write_store r s)) = store (y_app s)"
  using assms handle_silent [of "y_app s" r] by (auto simp: settled_def write_store_def)

lemma settled_send:
  assumes "settled ((send_events b es s)\<lparr>y_tasks := ts @ us\<rparr>)" "y_tasks s = ts @ (r, es) # us"
  shows "settled s"
  using assms by (cases "y_mgr s") (auto simp: settled_def send_events_def)

context system_dns_manager
begin

definition world_inv where
  "world_inv r0 s = (events_inv s \<and> wf (y_world s) \<and> rest (y_world s) = r0 \<and>
     (settled s \<longrightarrow> config (y_world s) = image (snapshot_all_domains (y_app s))))"

lemma mgr_apply_inv:
  assumes "world_inv r0 s" "safe (snapshot_all_domains (y_app s)) r0" "ap (snapshot_all_domains (y_app s)) (y_world s) = (x, w)"
  shows "wf w \<and> rest w = r0 \<and> (\<forall>u. x = Inr u \<longrightarrow> config w = image (snapshot_all_domains (y_app s)))"
  using assms apply_config [of "y_world s"] apply_rest [of "y_world s" "snapshot_all_domains (y_app s)"]
    apply_wf [of "y_world s" "snapshot_all_domains (y_app s)"]
  by (auto simp: world_inv_def)

lemma mgr_wake_inv:
  assumes "world_inv r0 s" "\<And>ds. safe ds r0" "y_mgr s = MgrLoop q" "mgr_wake ap rv (y_app s) q (y_world s) = (ph, w)"
  shows "wf w \<and> rest w = r0 \<and>
    (\<not> token (y_app s) \<and> list_all (\<lambda>(r, es). es = []) (y_tasks s) \<and> ph = MgrLoop [] \<longrightarrow> config w = image (snapshot_all_domains (y_app s)))"
proof (cases "token (y_app s) \<or> length q > channel_capacity \<or> q = []")
  case True
  from assms(1) have w: "wf (y_world s)" "rest (y_world s) = r0" by (simp_all add: world_inv_def)
  show ?thesis
  proof (cases "token (y_app s)")
    case True
    with assms(4) w show ?thesis using revert_wf revert_rest by (auto simp: mgr_wake_def)
  next
    case False
    with True assms w show ?thesis
      by (auto simp: mgr_wake_def world_inv_def settled_def channel_capacity_def split: if_splits)
  qed
next
  case False
  then obtain e es where q: "q = e # es" by (cases q) auto
  with False assms(1,3) have "rule_event e" by (simp add: world_inv_def events_inv_def)
  moreover obtain x w1 where a: "ap (snapshot_all_domains (y_app s)) (y_world s) = (x, w1)" by (rule prod.exhaust)
  ultimately have "w = w1" "(\<exists>u. x = Inr u) \<or> (\<exists>err. ph = MgrEnded (MgrError err))"
    using False q assms(4) by (auto simp: mgr_wake_def split: sum.splits)
  with mgr_apply_inv [OF assms(1,2) a] show ?thesis by auto
qed

lemma world_inv_step:
  assumes "sys_step ap rv sto sign s t" "world_inv r0 s" "\<And>ds. safe ds r0"
  shows "world_inv r0 t"
proof -
  from assms have ev: "events_inv t" "events_inv s" by (auto simp: world_inv_def intro: events_inv_step)
  then have app: "app_inv (y_app s)" by (simp add: events_inv_def)
  from assms(1) show ?thesis
  proof cases
    case (req_write r)
    with assms(2) ev app settled_write [of r s] snapshot_all_domains_store [of "y_app (write_store r s)" "y_app s"] show ?thesis
      by (auto simp: world_inv_def) (simp_all add: write_store_def)
  next
    case (req_send ts r es us)
    have "snapshot_all_domains (y_app ((send_events (r = Stop) es s)\<lparr>y_tasks := ts @ us\<rparr>)) = snapshot_all_domains (y_app s)"
      by (rule snapshot_all_domains_store) (simp add: send_events_def)
    with req_send assms(2) ev settled_send [of ts us "r = Stop" es s r] show ?thesis
      by (auto simp: world_inv_def) (simp_all add: send_events_def)
  next
    case (mgr_apply q ph w)
    then show ?thesis
      using ev assms(2) mgr_apply_inv [OF assms(2) assms(3)]
      by (auto simp: world_inv_def mgr_first_apply_def settled_def split: prod.splits sum.splits)
  next
    case (mgr_turn q ph w)
    then show ?thesis
      using ev(1) mgr_wake_inv [OF assms(2,3) mgr_turn(3,4)] by (auto simp: world_inv_def settled_def)
  qed (use ev assms(2) revert_wf [of "y_world s"] revert_rest [of "y_world s"] in \<open>auto simp: world_inv_def settled_def send_events_def\<close>)
qed

lemma world_inv_steps:
  assumes "(sys_step ap rv sto sign)\<^sup>*\<^sup>* s t" "world_inv r0 s" "\<And>ds. safe ds r0"
  shows "world_inv r0 t"
  using assms by (induction rule: rtranclp_induct) (auto intro: world_inv_step)

text \<open>The configuration is gone once the task has ended in order.\<close>

lemma ended_step:
  assumes "sys_step ap rv sto sign s t" "world_inv r0 s" "\<And>v. wf v \<Longrightarrow> \<exists>v'. rv v = (Inr (), v')"
    and "y_mgr s = MgrEnded MgrDone \<longrightarrow> config (y_world s) = none"
  shows "y_mgr t = MgrEnded MgrDone \<longrightarrow> config (y_world t) = none"
  using assms(1)
proof cases
  case (req_send ts r es us)
  with assms(4) show ?thesis by (cases "y_mgr s") (simp_all add: send_events_def)
next
  case (mgr_apply q ph w)
  then show ?thesis by (auto simp: mgr_first_apply_def split: prod.splits sum.splits)
next
  case (mgr_turn q ph w)
  from assms(2) have "wf (y_world s)" by (simp add: world_inv_def)
  with assms(3) obtain v where "rv (y_world s) = (Inr (), v)" by blast
  with revert_config [OF \<open>wf (y_world s)\<close>, of "()" v] mgr_turn show ?thesis
    by (auto simp: mgr_wake_def split: if_splits list.splits prod.splits sum.splits)
next
  case main_cancelled
  with assms(4) show ?thesis by (cases "y_mgr s") (simp_all add: send_events_def)
qed (use assms(4) in \<open>auto simp: write_store_def\<close>)

lemma ended_steps:
  assumes "(sys_step ap rv sto sign)\<^sup>*\<^sup>* s t" "world_inv r0 s" "\<And>ds. safe ds r0"
    and "\<And>v. wf v \<Longrightarrow> \<exists>v'. rv v = (Inr (), v')" "y_mgr s = MgrInit"
  shows "y_mgr t = MgrEnded MgrDone \<longrightarrow> config (y_world t) = none"
  using assms(1)
proof (induction rule: rtranclp_induct)
  case (step t u)
  with ended_step [OF step(2) world_inv_steps [OF step(1) assms(2,3)] assms(4)] show ?case by blast
qed (use assms(5) in simp)

end

section \<open>Shutdown\<close>

text \<open>What is left to do until the daemon has stopped.\<close>

fun mgr_work :: "mgr_phase \<Rightarrow> nat" where
  "mgr_work MgrInit = 3"
| "mgr_work (MgrSubscribed q) = 2"
| "mgr_work (MgrLoop q) = 1"
| "mgr_work (MgrEnded e) = 0"

fun main_work :: "main_phase \<Rightarrow> nat" where
  "main_work MainSelect = 2"
| "main_work MainJoin = 1"
| "main_work MainDone = 0"

definition work :: "('ca, 'cert, 'd, 'w) system \<Rightarrow> nat" where
  "work s = of_bool (y_ipc s) + of_bool (y_dns s) + of_bool (y_proxy s) + of_bool (d_watching (y_daemon s)) +
     mgr_work (y_mgr s) + main_work (y_main s)"

lemma mgr_post_work [simp]: "mgr_work (mgr_post es ph) = mgr_work ph"
  by (cases ph) simp_all

lemma own_step_watching: "own_step x \<Longrightarrow> d_watching (daemon_exec sto sign x d) \<Longrightarrow> d_watching d"
  by (cases x) (auto simp: watch_step_def split: if_splits option.splits list.splits prod.splits)

lemma mgr_wake_work: "mgr_wake ap rv st q w = (ph, w') \<Longrightarrow> mgr_work ph \<le> 1"
  by (auto simp: mgr_wake_def split: if_splits list.splits prod.splits sum.splits)

lemma mgr_first_apply_work: "mgr_first_apply ap st q w = (ph, w') \<Longrightarrow> mgr_work ph \<le> 1"
  by (auto simp: mgr_first_apply_def split: prod.splits sum.splits)

text \<open>What is left to do, part by part.\<close>

definition no_more :: "('ca, 'cert, 'd, 'w) system \<Rightarrow> ('ca, 'cert, 'd, 'w) system \<Rightarrow> bool" where
  "no_more s t = ((y_ipc t \<longrightarrow> y_ipc s) \<and> (y_dns t \<longrightarrow> y_dns s) \<and> (y_proxy t \<longrightarrow> y_proxy s) \<and>
     (d_watching (y_daemon t) \<longrightarrow> d_watching (y_daemon s)) \<and> mgr_work (y_mgr t) \<le> mgr_work (y_mgr s) \<and>
     main_work (y_main t) \<le> main_work (y_main s) \<and> (token (y_app s) \<longrightarrow> token (y_app t)))"

lemma no_more_refl: "no_more s s"
  by (simp add: no_more_def)

lemma no_more_trans: "no_more s t \<Longrightarrow> no_more t u \<Longrightarrow> no_more s u"
  by (auto simp: no_more_def)

lemma no_more_step:
  assumes "sys_step ap rv sto sign s t"
  shows "no_more s t"
  using assms
proof cases
  case (own x)
  with own_step_watching [of x sto sign "y_daemon s"] show ?thesis by (auto simp: no_more_def)
next
  case (mgr_apply q ph w)
  with mgr_first_apply_work [of ap "y_app s" q "y_world s" ph w] show ?thesis by (simp add: no_more_def)
next
  case (mgr_turn q ph w)
  with mgr_wake_work [of ap rv "y_app s" q "y_world s" ph w] show ?thesis by (simp add: no_more_def)
qed (auto simp: no_more_def write_store_def send_events_def)

lemma no_more_work:
  assumes "no_more s t"
  shows "(of_bool (y_ipc t) :: nat) \<le> of_bool (y_ipc s)" "(of_bool (y_dns t) :: nat) \<le> of_bool (y_dns s)"
    "(of_bool (y_proxy t) :: nat) \<le> of_bool (y_proxy s)" "(of_bool (d_watching (y_daemon t)) :: nat) \<le> of_bool (d_watching (y_daemon s))"
    "mgr_work (y_mgr t) \<le> mgr_work (y_mgr s)" "main_work (y_main t) \<le> main_work (y_main s)"
  using assms by (simp_all add: no_more_def)

lemma work_step:
  assumes "sys_step ap rv sto sign s t"
  shows "work t \<le> work s \<and> (token (y_app s) \<longrightarrow> token (y_app t))"
proof
  show "work t \<le> work s" unfolding work_def by (intro add_mono no_more_work no_more_step [OF assms])
  show "token (y_app s) \<longrightarrow> token (y_app t)" using no_more_step [OF assms] by (simp add: no_more_def)
qed

lemma work_steps:
  assumes "(sys_step ap rv sto sign)\<^sup>*\<^sup>* s t"
  shows "work t \<le> work s \<and> (token (y_app s) \<longrightarrow> token (y_app t))"
  using assms by (induction rule: rtranclp_induct) (auto dest: work_step)

lemma less_workI: "sys_step ap rv sto sign s t \<Longrightarrow> work t < work s \<Longrightarrow> \<exists>t. sys_step ap rv sto sign s t \<and> work t < work s"
  by blast

lemma shutdown_progress:
  assumes "token (y_app s)" "y_main s \<noteq> MainDone"
  shows "\<exists>t. sys_step ap rv sto sign s t \<and> work t < work s"
proof (cases "tasks_ended s")
  case True
  show ?thesis
  proof (cases "y_main s")
    case MainSelect
    from sys_step.main_cancelled [OF MainSelect assms(1)] show ?thesis
      by (rule less_workI) (simp add: work_def send_events_def MainSelect)
  next
    case MainJoin
    from sys_step.main_join [OF MainJoin True] show ?thesis by (rule less_workI) (simp add: work_def MainJoin)
  qed (use assms(2) in simp)
next
  case False
  then consider "y_ipc s" | "y_dns s" | "y_proxy s" | "d_watching (y_daemon s)" | "\<not> mgr_ended (y_mgr s)"
    by (auto simp: tasks_ended_def)
  then show ?thesis
  proof cases
    case 1
    from sys_step.ipc_end [OF this] show ?thesis by (rule less_workI) (simp add: work_def 1)
  next
    case 2
    from sys_step.dns_end [OF this] show ?thesis by (rule less_workI) (simp add: work_def 2)
  next
    case 3
    from sys_step.proxy_end [OF this] show ?thesis by (rule less_workI) (simp add: work_def 3)
  next
    case 4
    have "sys_step ap rv sto sign s (s\<lparr>y_daemon := daemon_exec sto sign WatchCancelled (y_daemon s)\<rparr>)"
      using assms(2) by (rule sys_step.own) simp
    then show ?thesis by (rule less_workI) (simp add: work_def 4 assms(1))
  next
    case 5
    show ?thesis
    proof (cases "y_mgr s")
      case MgrInit
      from sys_step.mgr_subscribe [OF assms(2) MgrInit] show ?thesis by (rule less_workI) (simp add: work_def MgrInit)
    next
      case (MgrSubscribed q)
      obtain ph w where a: "mgr_first_apply ap (y_app s) q (y_world s) = (ph, w)" by (rule prod.exhaust)
      from sys_step.mgr_apply [OF assms(2) MgrSubscribed a, of rv sto sign] show ?thesis
        by (rule less_workI) (use mgr_first_apply_work [OF a] MgrSubscribed in \<open>simp add: work_def\<close>)
    next
      case (MgrLoop q)
      have "mgr_wake ap rv (y_app s) q (y_world s) = (MgrEnded MgrDone, snd (rv (y_world s)))"
        using assms(1) by (simp add: mgr_wake_def)
      from sys_step.mgr_turn [OF assms(2) MgrLoop this, of sto sign]
      show ?thesis by (rule less_workI) (simp add: work_def MgrLoop)
    qed (use 5 in simp)
  qed
qed

lemma shutdown_reaches:
  assumes "token (y_app s)"
  shows "\<exists>t. (sys_step ap rv sto sign)\<^sup>*\<^sup>* s t \<and> y_main t = MainDone"
  using assms
proof (induction "work s" arbitrary: s rule: less_induct)
  case less
  show ?case
  proof (cases "y_main s = MainDone")
    case False
    from shutdown_progress [OF less.prems False] obtain t where t: "sys_step ap rv sto sign s t" "work t < work s" by blast
    with less.hyps [OF t(2)] work_step [OF t(1)] less.prems show ?thesis
      by (meson converse_rtranclp_into_rtranclp)
  qed blast
qed

lemma done_ended_step:
  assumes "sys_step ap rv sto sign s t" "y_main s = MainDone \<longrightarrow> tasks_ended s"
  shows "y_main t = MainDone \<longrightarrow> tasks_ended t"
  using assms by cases (auto simp: tasks_ended_def write_store_def send_events_def)

lemma done_ended_steps:
  assumes "(sys_step ap rv sto sign)\<^sup>*\<^sup>* s t" "y_main s \<noteq> MainDone"
  shows "y_main t = MainDone \<longrightarrow> tasks_ended t"
  using assms(1) by (induction rule: rtranclp_induct) (use assms(2) done_ended_step in blast)+

section \<open>Properties\<close>

text \<open>The contract of managers holds at the start.\<close>

lemma systemd_start:
  "config_ok lod disk \<Longrightarrow> systemd.world_inv (fs(drop_in_path := None)) (system_start lod sign installed ca disk fs)"
  by (simp add: systemd.world_inv_def events_inv_start settled_def) (simp add: system_start_def)

text \<open>
  C6. The system asks SideDNS for exactly its names. In every state the daemon can reach, with
  any interleaving of requests, lookups, lagging receivers and failing tasks: if the manager's
  task has no event pending, no connection is about to send one and no stop was requested, then
  the drop-in file is the one for the domains of all rules, which include the domain of the rule
  for every name that has one, and every other file is as it was before the daemon started.
\<close>

theorem routes_in_step:
  assumes "config_ok lod disk"
    and "(sys_step (systemd_apply h) (systemd_revert h) sto sign)\<^sup>*\<^sup>* (system_start lod sign installed ca disk fs) s"
    and "settled s"
  shows "y_world s = fs(drop_in_path \<mapsto> systemd_content (snapshot_all_domains (y_app s))) \<and>
    (\<forall>n r. inner_resolve (store (y_app s)) n = Some r \<longrightarrow> domain r \<in> set (snapshot_all_domains (y_app s)) \<and> matches r n)"
proof -
  from systemd.world_inv_steps [OF assms(2) systemd_start [OF assms(1)]]
  have i: "systemd.world_inv (fs(drop_in_path := None)) s" by simp
  then have "y_world s drop_in_path = Some (systemd_content (snapshot_all_domains (y_app s)))"
    "(y_world s)(drop_in_path := None) = fs(drop_in_path := None)" and inv: "store_inv (store (y_app s))"
    using assms(3) by (simp_all add: systemd.world_inv_def events_inv_def)
  moreover have "domain r \<in> set (snapshot_all_domains (y_app s)) \<and> matches r n"
    if "inner_resolve (store (y_app s)) n = Some r" for n r
    using that inv
    by (auto simp: inner_resolve_find snapshot_all_domains_def snapshot_all_def find_Some_iff)
  ultimately show ?thesis by (metis fun_upd_triv fun_upd_upd)
qed

text \<open>
  The same on macOS, where no file of the user is in the resolver directory: in every settled
  state the files SideDNS wrote are the ones for the domains of all rules, and no others are there.
\<close>

theorem routes_in_step_macos:
  assumes "config_ok lod disk" "macos_rest dir = (\<lambda>n. None)"
    and "(sys_step (macos_apply (as_root h)) (macos_revert (as_root h)) sto sign)\<^sup>*\<^sup>* (system_start lod sign installed ca disk dir) s"
    and "settled s"
  shows "macos_config (y_world s) = macos_image (snapshot_all_domains (y_app s)) \<and> macos_rest (y_world s) = (\<lambda>n. None)"
proof -
  have "macos.world_inv (\<lambda>n. None) (system_start lod sign installed ca disk dir)"
    using assms(1,2) by (simp add: macos.world_inv_def events_inv_start settled_def) (simp add: system_start_def)
  from macos.world_inv_steps [OF assms(3) this] assms(4) show ?thesis
    by (simp add: macos.world_inv_def macos_safe_def list_all_iff)
qed


text \<open>
  C18. Nothing is left behind. When the main task is done all tasks have ended, and if the
  manager's task ended in order (and its file may be removed and the resolver reloads), all
  files of the system are as before the daemon started, without a drop-in file.
\<close>

theorem shutdown_clean:
  assumes "config_ok lod disk" "can_remove h drop_in_path" "can_reload h"
    and "(sys_step (systemd_apply h) (systemd_revert h) sto sign)\<^sup>*\<^sup>* (system_start lod sign installed ca disk fs) s"
    and "y_main s = MainDone"
  shows "tasks_ended s \<and> (y_mgr s = MgrEnded MgrDone \<longrightarrow> y_world s = fs(drop_in_path := None))"
proof -
  let ?s0 = "system_start lod sign installed ca disk fs"
  have rv: "\<exists>v'. systemd_revert h v = (Inr (), v')" for v
    using assms(2,3) by (simp add: systemd_revert_def systemd_reload_def)
  note w0 = systemd_start [OF assms(1), of fs sign installed ca]
  have "systemd.world_inv (fs(drop_in_path := None)) s" using systemd.world_inv_steps [OF assms(4) w0] by simp
  moreover have "y_mgr s = MgrEnded MgrDone \<longrightarrow> y_world s drop_in_path = None"
    using systemd.ended_steps [OF assms(4) w0] rv by (simp add: system_start_def)
  ultimately have "y_mgr s = MgrEnded MgrDone \<longrightarrow> y_world s = fs(drop_in_path := None)"
    by (simp add: systemd.world_inv_def) (metis fun_upd_triv)
  moreover have "y_main s = MainDone \<longrightarrow> tasks_ended s"
    by (rule done_ended_steps [OF assms(4)]) (simp add: system_start_def)
  ultimately show ?thesis using assms(5) by blast
qed

section \<open>A concrete run\<close>

text \<open>A daemon with one rule in its file, up to its stop by a signal.\<close>

abbreviation demo_run :: "(unit, string, dns_config option, files) system \<Rightarrow> (unit, string, dns_config option, files) system \<Rightarrow> bool" where
  "demo_run \<equiv> (sys_step (systemd_apply all_ok) (systemd_revert all_ok) sample_sto sample_sign)\<^sup>*\<^sup>*"

definition demo_start :: "(unit, string, dns_config option, files) system" where
  "demo_start = system_start id sample_sign False None (Some \<lparr>rules = [local_rule ''a.io'' 1 False]\<rparr>) Map.empty"

definition demo_settled :: "(unit, string, dns_config option, files) system" where
  "demo_settled = demo_start\<lparr>y_world := [drop_in_path \<mapsto> systemd_content [''a.io'']], y_mgr := MgrLoop []\<rparr>"

lemma demo_config: "config_ok id (Some \<lparr>rules = [local_rule ''a.io'' p secure]\<rparr>)"
proof -
  have "validate_domain ''a.io''" by (subst validate_domain_eq_ok, simp, code_simp)
  moreover have "to_lowercase ''a.io'' = ''a.io''" by code_simp
  ultimately show ?thesis by (simp add: config_ok_def name_valid_def)
qed

lemma demo_app:
  "store (y_app demo_start) = inner_add (local_rule ''a.io'' 1 False) inner_new" "token (y_app demo_start) = False"
  by (simp_all add: demo_start_def system_start_def daemon_start_def load_rules_def store_add_all_def inner_add_all_def
    app_state_new_def Let_def)

lemma demo_domains: "snapshot_all_domains (y_app demo_start) = [''a.io'']"
  unfolding snapshot_all_domains_def demo_app by code_simp

lemma demo_phases: "y_mgr demo_start = MgrInit" "y_main demo_start = MainSelect" "y_world demo_start = Map.empty" "y_tasks demo_start = []"
  by (simp_all add: demo_start_def system_start_def)

lemma demo_settles: "demo_run demo_start demo_settled"
proof -
  let ?s1 = "demo_start\<lparr>y_world := Map.empty, y_mgr := MgrSubscribed []\<rparr>"
  have rv: "snd (systemd_revert all_ok Map.empty) = Map.empty" by (simp add: systemd_revert_def systemd_reload_def)
  have "sys_step (systemd_apply all_ok) (systemd_revert all_ok) sample_sto sample_sign demo_start ?s1"
    using sys_step.mgr_subscribe [of demo_start "systemd_apply all_ok" "systemd_revert all_ok" sample_sto sample_sign]
    by (simp add: demo_phases rv)
  moreover have "sys_step (systemd_apply all_ok) (systemd_revert all_ok) sample_sto sample_sign ?s1 demo_settled"
    using sys_step.mgr_apply [of ?s1 "[]" "systemd_apply all_ok" "MgrLoop []" "[drop_in_path \<mapsto> systemd_content [''a.io'']]"
        "systemd_revert all_ok" sample_sto sample_sign]
    by (simp add: demo_phases demo_domains mgr_first_apply_def systemd_apply_def systemd_reload_def all_ok_def demo_settled_def)
  ultimately show ?thesis by (meson rtranclp.rtrancl_into_rtrancl rtranclp.rtrancl_refl)
qed

theorem routes_in_step_witness:
  "settled demo_settled \<and> demo_run demo_start demo_settled \<and>
   y_world demo_settled = [drop_in_path \<mapsto> systemd_content (snapshot_all_domains (y_app demo_settled))]"
proof -
  have s: "settled demo_settled" by (simp add: settled_def demo_settled_def demo_app demo_phases)
  with routes_in_step [OF demo_config demo_settles [unfolded demo_start_def] s] demo_settles show ?thesis by simp
qed


lemma demo_stops: "\<exists>s. demo_run demo_start s \<and> y_main s = MainDone \<and> y_mgr s = MgrEnded MgrDone \<and> token (y_app s)"
proof -
  let ?step = "sys_step (systemd_apply all_ok) (systemd_revert all_ok) sample_sto sample_sign"
  let ?s1 = "demo_settled\<lparr>y_daemon := (y_daemon demo_settled)\<lparr>d_app := on_wake Sigterm (y_app demo_settled)\<rparr>, y_main := MainJoin\<rparr>"
  let ?s2 = "?s1\<lparr>y_world := snd (systemd_revert all_ok (y_world ?s1)), y_mgr := MgrEnded MgrDone\<rparr>"
  let ?s3 = "?s2\<lparr>y_ipc := False\<rparr>" let ?s4 = "?s3\<lparr>y_dns := False\<rparr>" let ?s5 = "?s4\<lparr>y_proxy := False\<rparr>"
  let ?s6 = "?s5\<lparr>y_daemon := daemon_exec sample_sto sample_sign WatchCancelled (y_daemon ?s5)\<rparr>"
  have up: "y_ipc demo_settled" "y_dns demo_settled" "y_proxy demo_settled" "y_main demo_settled = MainSelect" "y_mgr demo_settled = MgrLoop []"
    by (simp_all add: demo_settled_def demo_start_def system_start_def)
  have "?step demo_settled ?s1" by (rule sys_step.main_signal) (simp add: up)
  moreover have "?step ?s1 ?s2" by (rule sys_step.mgr_turn [of _ "[]"]) (simp_all add: up mgr_wake_def)
  moreover have "?step ?s2 ?s3" by (rule sys_step.ipc_end) (simp add: up)
  moreover have "?step ?s3 ?s4" by (rule sys_step.dns_end) (simp add: up)
  moreover have "?step ?s4 ?s5" by (rule sys_step.proxy_end) (simp add: up)
  moreover have "?step ?s5 ?s6" by (rule sys_step.own) simp_all
  moreover have "?step ?s6 (?s6\<lparr>y_main := MainDone\<rparr>)" by (rule sys_step.main_join) (simp_all add: tasks_ended_def)
  ultimately have "demo_run demo_settled (?s6\<lparr>y_main := MainDone\<rparr>)"
    by (meson converse_rtranclp_into_rtranclp rtranclp.rtrancl_refl)
  with demo_settles have "demo_run demo_start (?s6\<lparr>y_main := MainDone\<rparr>)" by (rule rtranclp_trans)
  then show ?thesis by (intro exI conjI, assumption) simp_all
qed

theorem shutdown_clean_witness:
  "\<exists>s. demo_run demo_start s \<and> y_main s = MainDone \<and> tasks_ended s \<and> y_world s = Map.empty"
proof -
  obtain s where s: "demo_run demo_start s" "y_main s = MainDone" "y_mgr s = MgrEnded MgrDone" using demo_stops by blast
  have "can_remove all_ok drop_in_path" "can_reload all_ok" by (simp_all add: all_ok_def)
  from shutdown_clean [OF demo_config this s(1) [unfolded demo_start_def] s(2)] s show ?thesis by auto
qed

end
