(* ===== verification/Concurrent.thy ===== *)
theory Concurrent
  imports Runner
begin

text \<open>
  The resolver's cache and the configuration file while connections run in parallel
  (core/src/ipc/server.rs, core/src/ipc/handler.rs, core/src/runner.rs): a request writes the
  store in one step and sends its event in a later one, and any steps may come in between.
\<close>

section \<open>Calm steps\<close>

text \<open>The events the watch task has not received: those sent, and those about to be sent.\<close>

definition in_flight :: "('ca, 'cert, 'd, 'w) system \<Rightarrow> dns_event list" where
  "in_flight s = d_queue (y_daemon s) @ concat (map snd (y_tasks s))"

text \<open>
  As for runs of \<open>Daemon\<close>: the watch task keeps up and keeps running, a lookup is not interleaved
  with other steps, and no layer has overlapping wildcards. Connections may interleave freely.
\<close>

definition calm_sys_step ::
    "(string list \<Rightarrow> 'w \<Rightarrow> 'w outcome) \<Rightarrow> ('w \<Rightarrow> 'w outcome) \<Rightarrow> 'd confy_store \<Rightarrow> ('ca, 'cert) signer \<Rightarrow>
     ('ca, 'cert, 'd, 'w) system \<Rightarrow> ('ca, 'cert, 'd, 'w) system \<Rightarrow> bool" where
  "calm_sys_step ap rv sto sign s t =
     (sys_step ap rv sto sign s t \<and> no_overlap (store (y_app s)) \<and> length (d_queue (y_daemon s)) \<le> channel_capacity \<and>
      d_inflight (y_daemon t) = [] \<and> d_watching (y_daemon t))"

section \<open>The invariants\<close>

definition cache_inv :: "('ca, 'cert, 'd, 'w) system \<Rightarrow> bool" where
  "cache_inv s = (events_inv s \<and> d_inflight (y_daemon s) = [] \<and> d_watching (y_daemon s) \<and>
     rules.coherent (store (y_app s)) (List.map_filter event_rule (in_flight s)) (d_res (y_daemon s)))"

definition file_inv :: "'d confy_load \<Rightarrow> ('ca, 'cert, 'd, 'w) system \<Rightarrow> bool" where
  "file_inv lod s = (lod (d_disk (y_daemon s)) = Some \<lparr>rules = snapshot_permanent (y_app s)\<rparr> \<or>
     list_ex persistent_event (in_flight s))"

text \<open>Only which rules are pending matters, not in which order.\<close>

lemma coherent_set: "set ps = set qs \<Longrightarrow> rules.coherent s ps c = rules.coherent s qs c"
  by (simp add: rules.coherent_def list_ex_iff)

lemma list_ex_set: "set xs = set ys \<Longrightarrow> list_ex P xs = list_ex P ys"
  by (simp add: list_ex_iff)

lemma map_filter_set: "set xs = set ys \<Longrightarrow> set (List.map_filter f xs) = set (List.map_filter f ys)"
  by (auto simp: List.map_filter_def)

lemma in_flight_write: "in_flight (write_store r s) = in_flight s @ task_events r (y_app s)"
  by (simp add: in_flight_def write_store_def)

lemma in_flight_send:
  "y_tasks s = ts @ (r, es) # us \<Longrightarrow> set (in_flight ((send_events b es s)\<lparr>y_tasks := ts @ us\<rparr>)) = set (in_flight s)"
  by (auto simp: in_flight_def send_events_def)

subsection \<open>Steps that are not requests\<close>

lemma own_in_flight: "own_step x \<Longrightarrow> x \<noteq> Watch \<Longrightarrow>
  d_queue (daemon_exec sto sign x d) = d_queue d \<and> d_disk (daemon_exec sto sign x d) = d_disk d"
  by (cases x) (simp_all split: option.split list.split prod.split)

lemma own_coherent:
  assumes "own_step x" "x \<noteq> Watch" "d_inflight d = []" "rules.coherent (store (d_app d)) ps (d_res d)"
  shows "rules.coherent (store (d_app d)) ps (d_res (daemon_exec sto sign x d))"
  using assms by (cases x) (simp_all add: resolve_domain_pending resolve_cert_pending nth_drop_def
    coherent_cache [OF sign_domain_frame(2)] split: option.split)

lemma watch_app [simp]: "d_app (watch_step sto d) = d_app d"
  by (simp add: watch_step_def split: list.split)

lemma watch_queue:
  assumes "d_watching d" "length (d_queue d) \<le> channel_capacity" "d_queue d = e # es"
  shows "watch_step sto d = on_event sto e (d\<lparr>d_queue := es\<rparr>)"
  using assms by (simp add: watch_step_def)

lemma watch_cache:
  assumes "d_watching d" "length (d_queue d) \<le> channel_capacity"
    and "rules.coherent (store (d_app d)) (List.map_filter event_rule (d_queue d @ es)) (d_res d)"
  shows "rules.coherent (store (d_app d)) (List.map_filter event_rule (d_queue (watch_step sto d) @ es)) (d_res (watch_step sto d))"
proof (cases "d_queue d")
  case (Cons e qs)
  with assms show ?thesis
    by (auto simp: watch_queue map_filter_Cons split: option.splits intro: rules.coherent_purge)
qed (use assms in \<open>simp add: watch_step_def\<close>)

lemma watch_file:
  assumes "d_watching d" "length (d_queue d) \<le> channel_capacity" "\<forall>c x. confy_ok sto lod c x"
    and "lod (d_disk d) = Some \<lparr>rules = snapshot_permanent (d_app d)\<rparr> \<or> list_ex persistent_event (d_queue d @ es)"
  shows "lod (d_disk (watch_step sto d)) = Some \<lparr>rules = snapshot_permanent (d_app d)\<rparr> \<or>
    list_ex persistent_event (d_queue (watch_step sto d) @ es)"
proof (cases "d_queue d")
  case (Cons e qs)
  with assms show ?thesis by (cases e) (auto simp: watch_queue save_def confy_ok_def)
qed (use assms in \<open>simp add: watch_step_def\<close>)

subsection \<open>All steps\<close>

lemma cache_inv_step:
  assumes "calm_sys_step ap rv sto sign s t" "cache_inv s"
  shows "cache_inv t"
proof -
  from assms have step: "sys_step ap rv sto sign s t" and calm: "no_overlap (store (y_app s))"
    "length (d_queue (y_daemon s)) \<le> channel_capacity" "d_inflight (y_daemon t) = []" "d_watching (y_daemon t)"
    and inv: "events_inv s" "d_inflight (y_daemon s) = []" "d_watching (y_daemon s)"
    and coh: "rules.coherent (store (y_app s)) (List.map_filter event_rule (in_flight s)) (d_res (y_daemon s))"
    by (simp_all add: calm_sys_step_def cache_inv_def)
  have "rules.coherent (store (y_app t)) (List.map_filter event_rule (in_flight t)) (d_res (y_daemon t))"
    using step
  proof cases
    case (req_write r)
    have "rules.coherent (store (snd (handle r (y_app s)))) (List.map_filter event_rule (in_flight s) @ request_rules r (y_app s)) (d_res (y_daemon s))"
      using inv(1) calm(1) by (intro rules.coherent_change [OF coh]) (simp add: events_inv_def handle_frame)
    with req_write show ?thesis
      by (simp add: in_flight_write map_filter_append request_rules_def) (simp add: write_store_def)
  next
    case (req_send ts r es us)
    have "store (y_app t) = store (y_app s)" "d_res (y_daemon t) = d_res (y_daemon s)"
      by (simp_all add: req_send(1) send_events_def)
    with coh req_send(1) show ?thesis
      by (simp add: coherent_set [OF map_filter_set [OF in_flight_send [OF req_send(3)]]])
  next
    case (own x)
    show ?thesis
    proof (cases "x = Watch")
      case True
      with own coh watch_cache [OF inv(3) calm(2)] show ?thesis by (simp add: in_flight_def)
    next
      case False
      with own coh own_coherent [of x "y_daemon s"] own_in_flight [of x sto sign "y_daemon s"] inv(2) show ?thesis
        by (simp add: in_flight_def)
    qed
  next
    case main_cancelled
    have "List.map_filter event_rule (xs @ DaemonStopped # ys) = List.map_filter event_rule (xs @ ys)" for xs ys
      by (simp add: map_filter_append map_filter_Cons)
    with main_cancelled coh show ?thesis by (simp add: in_flight_def send_events_def)
  qed (use coh in \<open>simp_all add: in_flight_def\<close>)
  with events_inv_step [OF step inv(1)] calm show ?thesis by (simp add: cache_inv_def)
qed

lemma file_inv_step:
  assumes "calm_sys_step ap rv sto sign s t" "cache_inv s" "file_inv lod s" "\<forall>c x. confy_ok sto lod c x"
  shows "file_inv lod t"
proof -
  from assms(1,2) have step: "sys_step ap rv sto sign s t" and calm: "length (d_queue (y_daemon s)) \<le> channel_capacity"
    and w: "d_watching (y_daemon s)" and app: "app_inv (y_app s)"
    by (simp_all add: calm_sys_step_def cache_inv_def events_inv_def)
  from step show ?thesis
  proof cases
    case (req_write r)
    have "snapshot_permanent (y_app (write_store r s)) = snapshot_permanent (snd (handle r (y_app s)))"
      by (simp add: snapshot_permanent_def write_store_def)
    with handle_persistent [OF app, of r] req_write assms(3) show ?thesis
      by (auto simp: file_inv_def in_flight_write) (auto simp: write_store_def)
  next
    case (req_send ts r es us)
    have "snapshot_permanent (y_app t) = snapshot_permanent (y_app s)" "d_disk (y_daemon t) = d_disk (y_daemon s)"
      by (simp_all add: req_send(1) send_events_def snapshot_permanent_def)
    with list_ex_set [OF in_flight_send [OF req_send(3), of "r = Stop"]] assms(3) req_send(1) show ?thesis
      by (simp add: file_inv_def)
  next
    case (own x)
    show ?thesis
    proof (cases "x = Watch")
      case True
      with own assms(3) watch_file [OF w calm assms(4)] show ?thesis by (simp add: file_inv_def in_flight_def)
    next
      case False
      with own assms(3) own_in_flight [of x sto sign "y_daemon s"] show ?thesis by (simp add: file_inv_def in_flight_def)
    qed
  next
    case main_signal
    with assms(3) show ?thesis by (simp add: file_inv_def in_flight_def snapshot_permanent_def)
  next
    case main_cancelled
    with assms(3) show ?thesis by (simp add: file_inv_def in_flight_def snapshot_permanent_def send_events_def)
  qed (use assms(3) in \<open>simp_all add: file_inv_def in_flight_def\<close>)
qed

lemma calm_steps_inv:
  assumes "(calm_sys_step ap rv sto sign)\<^sup>*\<^sup>* s t" "cache_inv s" "file_inv lod s" "\<forall>c x. confy_ok sto lod c x"
  shows "cache_inv t \<and> file_inv lod t"
  using assms by (induction rule: rtranclp_induct) (auto intro: cache_inv_step file_inv_step)

lemma cache_inv_start: "config_ok lod disk \<Longrightarrow> cache_inv (system_start lod sign installed ca disk w)"
  using daemon_inv_start [of lod disk sign installed ca] events_inv_start [of lod disk sign installed ca w]
  by (simp add: cache_inv_def in_flight_def daemon_inv_def pending_rules_def)
    (simp add: system_start_def daemon_start_def split_beta Let_def)

section \<open>Property\<close>



end
