(* ===== verification/Fairness.thy ===== *)
theory Fairness
  imports Runner
begin

text \<open>
  Shutdown as liveness (core/src/runner.rs): infinite runs of the whole daemon in which every
  task that can go on eventually does.
\<close>

section \<open>Fair runs\<close>

text \<open>
  Weak fairness: what stays enabled is eventually taken. Once the token is cancelled, the arm of
  a server's \<^verbatim>\<open>select!\<close> that ends it is enabled, and so are that of the watch task, the next step
  of the manager's task and of the main task, which then waits for the others.
\<close>

definition weakly_fair :: "('s \<Rightarrow> bool) \<Rightarrow> ('s \<Rightarrow> 's \<Rightarrow> bool) \<Rightarrow> (nat \<Rightarrow> 's) \<Rightarrow> bool" where
  "weakly_fair enabled taken r = (\<forall>i. \<exists>j\<ge>i. \<not> enabled (r j) \<or> taken (r j) (r (Suc j)))"

definition fair_run ::
    "(string list \<Rightarrow> 'w \<Rightarrow> 'w outcome) \<Rightarrow> ('w \<Rightarrow> 'w outcome) \<Rightarrow> 'd confy_store \<Rightarrow> ('ca, 'cert) signer \<Rightarrow>
     (nat \<Rightarrow> ('ca, 'cert, 'd, 'w) system) \<Rightarrow> bool" where
  "fair_run ap rv sto sign r =
     ((\<forall>i. sys_step ap rv sto sign (r i) (r (Suc i)) \<or> r (Suc i) = r i) \<and>
      weakly_fair (\<lambda>s. token (y_app s) \<and> y_ipc s) (\<lambda>s t. \<not> y_ipc t) r \<and>
      weakly_fair (\<lambda>s. token (y_app s) \<and> y_dns s) (\<lambda>s t. \<not> y_dns t) r \<and>
      weakly_fair (\<lambda>s. token (y_app s) \<and> y_proxy s) (\<lambda>s t. \<not> y_proxy t) r \<and>
      weakly_fair (\<lambda>s. token (y_app s) \<and> d_watching (y_daemon s)) (\<lambda>s t. \<not> d_watching (y_daemon t)) r \<and>
      weakly_fair (\<lambda>s. token (y_app s) \<and> \<not> mgr_ended (y_mgr s)) (\<lambda>s t. mgr_work (y_mgr t) < mgr_work (y_mgr s)) r \<and>
      weakly_fair (\<lambda>s. token (y_app s) \<and> y_main s = MainSelect \<or> y_main s = MainJoin \<and> tasks_ended s)
        (\<lambda>s t. main_work (y_main t) < main_work (y_main s)) r)"

lemma weakly_fairD:
  assumes "weakly_fair enabled taken r" "\<And>j. i \<le> j \<Longrightarrow> \<not> enabled (r j) \<Longrightarrow> P j"
    "\<And>j. i \<le> j \<Longrightarrow> taken (r j) (r (Suc j)) \<Longrightarrow> P (Suc j)"
  shows "\<exists>j\<ge>i. P j"
proof -
  from assms(1) obtain j where "i \<le> j" "\<not> enabled (r j) \<or> taken (r j) (r (Suc j))" unfolding weakly_fair_def by blast
  then show ?thesis using assms(2,3) le_SucI by blast
qed

section \<open>Progress\<close>

lemma no_more_run:
  assumes "fair_run ap rv sto sign r" "i \<le> j"
  shows "no_more (r i) (r j)"
  using assms(2)
proof (induction j rule: dec_induct)
  case (step n)
  have "sys_step ap rv sto sign (r n) (r (Suc n)) \<or> r (Suc n) = r n" using assms(1) by (simp add: fair_run_def)
  then have "no_more (r n) (r (Suc n))" using no_more_step no_more_refl by metis
  with step.IH show ?case by (rule no_more_trans)
qed (rule no_more_refl)

lemma no_more_less:
  assumes "no_more s t" "y_ipc s \<and> \<not> y_ipc t \<or> y_dns s \<and> \<not> y_dns t \<or> y_proxy s \<and> \<not> y_proxy t \<or>
    d_watching (y_daemon s) \<and> \<not> d_watching (y_daemon t) \<or> mgr_work (y_mgr t) < mgr_work (y_mgr s) \<or>
    main_work (y_main t) < main_work (y_main s)"
  shows "work t < work s"
  using assms(2) no_more_work [OF assms(1)] unfolding work_def by (elim disjE conjE) simp_all

lemma mgr_ended_work: "mgr_ended ph \<longleftrightarrow> mgr_work ph = 0"
  by (cases ph) simp_all

lemma tasks_ended_stable: "no_more s t \<Longrightarrow> tasks_ended s \<Longrightarrow> tasks_ended t"
  by (auto simp: no_more_def tasks_ended_def mgr_ended_work)

lemma run_token: "fair_run ap rv sto sign r \<Longrightarrow> token (y_app (r i)) \<Longrightarrow> i \<le> j \<Longrightarrow> token (y_app (r j))"
  using no_more_run by (fastforce simp: no_more_def)

text \<open>Each task ends or gets closer to its end.\<close>

lemma fair_tasks:
  assumes "fair_run ap rv sto sign r" "token (y_app (r i))"
  shows "\<exists>j\<ge>i. \<not> y_ipc (r j)" "\<exists>j\<ge>i. \<not> y_dns (r j)" "\<exists>j\<ge>i. \<not> y_proxy (r j)" "\<exists>j\<ge>i. \<not> d_watching (y_daemon (r j))"
    "\<exists>j\<ge>i. mgr_ended (y_mgr (r j)) \<or> mgr_work (y_mgr (r j)) < mgr_work (y_mgr (r i))"
proof -
  note wf = assms(1) [unfolded fair_run_def] and tok = run_token [OF assms]
  from wf have "weakly_fair (\<lambda>s. token (y_app s) \<and> y_ipc s) (\<lambda>s t. \<not> y_ipc t) r" by blast
  then show "\<exists>j\<ge>i. \<not> y_ipc (r j)" by (rule weakly_fairD) (use tok in blast)+
  from wf have "weakly_fair (\<lambda>s. token (y_app s) \<and> y_dns s) (\<lambda>s t. \<not> y_dns t) r" by blast
  then show "\<exists>j\<ge>i. \<not> y_dns (r j)" by (rule weakly_fairD) (use tok in blast)+
  from wf have "weakly_fair (\<lambda>s. token (y_app s) \<and> y_proxy s) (\<lambda>s t. \<not> y_proxy t) r" by blast
  then show "\<exists>j\<ge>i. \<not> y_proxy (r j)" by (rule weakly_fairD) (use tok in blast)+
  from wf have "weakly_fair (\<lambda>s. token (y_app s) \<and> d_watching (y_daemon s)) (\<lambda>s t. \<not> d_watching (y_daemon t)) r" by blast
  then show "\<exists>j\<ge>i. \<not> d_watching (y_daemon (r j))" by (rule weakly_fairD) (use tok in blast)+
  from wf have "weakly_fair (\<lambda>s. token (y_app s) \<and> \<not> mgr_ended (y_mgr s)) (\<lambda>s t. mgr_work (y_mgr t) < mgr_work (y_mgr s)) r"
    by blast
  moreover have "mgr_work (y_mgr (r j)) \<le> mgr_work (y_mgr (r i))" if "i \<le> j" for j
    using no_more_run [OF assms(1) that] by (simp add: no_more_def)
  ultimately show "\<exists>j\<ge>i. mgr_ended (y_mgr (r j)) \<or> mgr_work (y_mgr (r j)) < mgr_work (y_mgr (r i))"
    by (elim weakly_fairD) (use tok in \<open>auto intro: less_le_trans\<close>)
qed

text \<open>Once the tasks have ended, so does the main task.\<close>

lemma fair_main:
  assumes "fair_run ap rv sto sign r" "token (y_app (r i))" "tasks_ended (r i)" "y_main (r i) \<noteq> MainDone"
  shows "\<exists>j\<ge>i. main_work (y_main (r j)) < main_work (y_main (r i))"
proof -
  have later: "main_work (y_main (r j)) \<le> main_work (y_main (r i))" "tasks_ended (r j)" if "i \<le> j" for j
    using no_more_run [OF assms(1) that] assms(3) by (simp_all add: no_more_def tasks_ended_stable [of "r i"])
  have "0 < main_work (y_main (r i))" using assms(4) by (cases "y_main (r i)") simp_all
  then have stop: "main_work (y_main (r j)) < main_work (y_main (r i))"
    if "i \<le> j" "\<not> (token (y_app (r j)) \<and> y_main (r j) = MainSelect \<or> y_main (r j) = MainJoin \<and> tasks_ended (r j))" for j
    using that later(2) run_token [OF assms(1,2)] by (cases "y_main (r j)") auto
  from assms(1) have "weakly_fair (\<lambda>s. token (y_app s) \<and> y_main s = MainSelect \<or> y_main s = MainJoin \<and> tasks_ended s)
      (\<lambda>s t. main_work (y_main t) < main_work (y_main s)) r"
    by (simp add: fair_run_def)
  then show ?thesis by (rule weakly_fairD) (use stop later(1) in \<open>auto intro: less_le_trans\<close>)
qed

lemma fair_progress:
  assumes "fair_run ap rv sto sign r" "token (y_app (r i))" "y_main (r i) \<noteq> MainDone"
  shows "\<exists>j\<ge>i. work (r j) < work (r i)"
proof (cases "tasks_ended (r i)")
  case True
  from fair_main [OF assms(1,2) True assms(3)] obtain j where "i \<le> j" "main_work (y_main (r j)) < main_work (y_main (r i))"
    by blast
  with no_more_less [OF no_more_run [OF assms(1)]] show ?thesis by blast
next
  case False
  then have "\<exists>j\<ge>i. y_ipc (r i) \<and> \<not> y_ipc (r j) \<or> y_dns (r i) \<and> \<not> y_dns (r j) \<or> y_proxy (r i) \<and> \<not> y_proxy (r j) \<or>
      d_watching (y_daemon (r i)) \<and> \<not> d_watching (y_daemon (r j)) \<or> mgr_work (y_mgr (r j)) < mgr_work (y_mgr (r i))"
    using fair_tasks [OF assms(1,2)] by (auto simp: tasks_ended_def mgr_ended_work)
  then obtain j where j: "i \<le> j" "y_ipc (r i) \<and> \<not> y_ipc (r j) \<or> y_dns (r i) \<and> \<not> y_dns (r j) \<or> y_proxy (r i) \<and> \<not> y_proxy (r j) \<or>
      d_watching (y_daemon (r i)) \<and> \<not> d_watching (y_daemon (r j)) \<or> mgr_work (y_mgr (r j)) < mgr_work (y_mgr (r i))"
    by blast
  with no_more_less [OF no_more_run [OF assms(1) j(1)]] show ?thesis by blast
qed

lemma fair_done:
  assumes "fair_run ap rv sto sign r" "token (y_app (r i))"
  shows "\<exists>j\<ge>i. y_main (r j) = MainDone"
  using assms
proof (induction "work (r i)" arbitrary: i rule: less_induct)
  case less
  show ?case
  proof (cases "y_main (r i) = MainDone")
    case False
    from fair_progress [OF less.prems False] obtain j where j: "i \<le> j" "work (r j) < work (r i)" by blast
    with less.hyps [OF j(2) less.prems(1) run_token [OF less.prems j(1)]] show ?thesis by (meson order_trans)
  qed blast
qed

section \<open>Property\<close>


text \<open>A run that stays in a state is fair to whatever is not possible there.\<close>

lemma padded_fair: "f n = t \<Longrightarrow> \<not> en t \<Longrightarrow> weakly_fair en tk (\<lambda>i. f (min i n))"
  unfolding weakly_fair_def
proof
  fix i
  assume "f n = t" "\<not> en t"
  then show "\<exists>j\<ge>i. \<not> en (f (min j n)) \<or> tk (f (min j n)) (f (min (Suc j) n))"
    by (intro exI [of _ "max i n"]) (simp add: min_def)
qed

text \<open>A run that has stopped and stays so is fair.\<close>

lemma stopped_run_fair:
  assumes "(sys_step ap rv sto sign)\<^sup>*\<^sup>* s t" "y_main t = MainDone" "tasks_ended t"
  obtains r n where "fair_run ap rv sto sign r" "r 0 = s" "r n = t"
proof -
  from assms(1) obtain n where "(sys_step ap rv sto sign ^^ n) s t" by (auto simp: rtranclp_power)
  then obtain f where f: "f 0 = s" "f n = t" "\<And>i. i < n \<Longrightarrow> sys_step ap rv sto sign (f i) (f (Suc i))"
    by (auto simp: relpowp_fun_conv)
  let ?r = "\<lambda>i. f (min i n)"
  have "weakly_fair en tk ?r" if "\<not> en t" for en tk using f(2) that by (rule padded_fair)
  moreover have "sys_step ap rv sto sign (?r i) (?r (Suc i)) \<or> ?r (Suc i) = ?r i" for i
    using f(3) [of i] by (cases "i < n") (simp_all add: min_def)
  ultimately have "fair_run ap rv sto sign ?r"
    using assms(2,3) by (simp add: fair_run_def tasks_ended_def)
  with f that [of ?r n] show ?thesis by simp
qed


end
