(* ===== verification/Tls.thy ===== *)
theory Tls
  imports Runner Ca
begin

text \<open>
  HTTPS in the running daemon: the authority that core/src/runner.rs loads at its start, the
  certificates signed with it (core/src/dns/resolver.rs, core/src/certs/ca.rs) and what TLS
  clients get over the life of the daemon.
\<close>

section \<open>Start with an authority\<close>

text \<open>An authority that does not load disables HTTPS and nothing else.\<close>

definition daemon_ca :: "('ca, 'cert) pki \<Rightarrow> string \<Rightarrow> files \<Rightarrow> 'ca option" where
  "daemon_ca pki dir fs = (case ca_load pki dir fs of Inr ca \<Rightarrow> Some ca | Inl e \<Rightarrow> None)"

definition tls_daemon_start ::
    "'d confy_load \<Rightarrow> ('ca, 'cert) pki \<Rightarrow> string \<Rightarrow> files \<Rightarrow> 'd \<Rightarrow> ('ca, 'cert, 'd) daemon" where
  "tls_daemon_start lod pki dir fs disk =
     daemon_start lod (resolver_sign pki) (ca_is_installed pki dir fs) (daemon_ca pki dir fs) disk"

definition tls_system_start ::
    "'d confy_load \<Rightarrow> ('ca, 'cert) pki \<Rightarrow> string \<Rightarrow> files \<Rightarrow> 'd \<Rightarrow> 'w \<Rightarrow> ('ca, 'cert, 'd, 'w) system" where
  "tls_system_start lod pki dir fs disk w =
     system_start lod (resolver_sign pki) (ca_is_installed pki dir fs) (daemon_ca pki dir fs) disk w"

section \<open>The invariant\<close>

text \<open>The authority is fixed, and every cached certificate is one it signed for that name.\<close>

definition tls_inv :: "('ca, 'cert) signer \<Rightarrow> 'ca option \<Rightarrow> ('ca, 'cert) domain_resolver \<Rightarrow> bool" where
  "tls_inv sign ca res = (cert_authority res = ca \<and>
     (\<forall>n c. map_of (certs_cache res) n = Some c \<longrightarrow> (\<exists>a k. ca = Some a \<and> sign k a [n] = Some c)))"

named_theorems tls_intros

lemma tls_inv_new [tls_intros]: "tls_inv sign ca (domain_resolver_new ca)"
  by (simp add: tls_inv_def domain_resolver_new_def)

lemma tls_inv_sign [tls_intros]: "tls_inv sign ca res \<Longrightarrow> tls_inv sign ca (snd (sign_domain (sign k) n res))"
  by (auto simp: tls_inv_def sign_domain_def table_simps split: option.splits)

lemma tls_inv_invalidate [tls_intros]: "tls_inv sign ca res \<Longrightarrow> tls_inv sign ca (invalidate r res)"
  by (simp add: tls_inv_def invalidate_get)

lemma tls_inv_resolve [tls_intros]: "tls_inv sign ca res \<Longrightarrow> tls_inv sign ca (snd (resolve_domain s n res))"
  by (simp add: tls_inv_def)

lemma tls_inv_cert [tls_intros]: "tls_inv sign ca res \<Longrightarrow> tls_inv sign ca (snd (resolve_cert (sign k) s n res))"
  by (auto simp: resolve_cert_def split_beta Let_def intro: tls_intros split: option.split)

lemma tls_inv_presign [tls_intros]: "tls_inv sign ca res \<Longrightarrow> tls_inv sign ca (presign sign rs res)"
  unfolding presign_def by (rule fold_invariant [where Q = "\<lambda>r. True"]) (auto intro: tls_intros)

lemma tls_inv_start: "tls_inv sign ca (d_res (daemon_start lod sign installed ca disk))"
  by (simp add: daemon_start_def Let_def split_beta tls_intros)

lemma tls_inv_watch: "tls_inv sign ca (d_res d) \<Longrightarrow> tls_inv sign ca (d_res (watch_step sto d))"
  by (auto simp: watch_step_def intro: tls_intros split: list.split option.split)

lemma tls_inv_exec:
  assumes "tls_inv sign ca (d_res d)"
  shows "tls_inv sign ca (d_res (daemon_exec sto sign x d))"
proof (cases x)
  case (LookupBegin n)
  then show ?thesis using assms by (simp split: option.split)
next
  case (LookupEnd i)
  then show ?thesis using assms by (simp add: tls_inv_def split: option.split prod.split)
next
  case (HelloEnd k i)
  then show ?thesis using assms by (auto intro: tls_intros split: option.split)
qed (use assms in \<open>simp_all add: tls_intros tls_inv_watch daemon_request_def\<close>)

lemma tls_inv_run:
  "tls_inv sign ca (d_res d) \<Longrightarrow> tls_inv sign ca (d_res (daemon_run sto sign xs d))"
  unfolding daemon_run_def by (rule fold_invariant [where Q = "\<lambda>r. True"]) (auto intro: tls_inv_exec)

lemma tls_inv_steps:
  assumes "(sys_step ap rv sto sign)\<^sup>*\<^sup>* s t" "tls_inv sign ca (d_res (y_daemon s))"
  shows "tls_inv sign ca (d_res (y_daemon t))"
  using assms
proof (induction rule: rtranclp_induct)
  case (step t u)
  then have i: "tls_inv sign ca (d_res (y_daemon t))" by simp
  from step(2) show ?case
    by cases (use i in \<open>simp_all add: write_store_def send_events_def tls_inv_exec\<close>)
qed

section \<open>What a client gets\<close>

lemma resolve_cert_signed:
  assumes "tls_inv sign ca res" "fst (resolve_cert (sign j) s n res) = Some c"
  shows "\<exists>name a k. n = Some name \<and> ca = Some a \<and> sign k a [name] = Some c"
proof -
  from assms(2) obtain name where n: "n = Some name" by (cases n) (simp_all add: resolve_cert_def)
  let ?res = "snd (resolve_domain s name res)"
  have inv: "tls_inv sign ca ?res" using assms(1) by (rule tls_intros)
  from assms(2) n consider "map_of (certs_cache ?res) name = Some c" | "fst (sign_domain (sign j) name ?res) = Some c"
    by (auto simp: resolve_cert_def split_beta Let_def split: if_splits option.splits)
  then show ?thesis
  proof cases
    case 1
    with inv n show ?thesis unfolding tls_inv_def by blast
  next
    case 2
    with inv n show ?thesis by (auto simp: tls_inv_def sign_domain_def split: option.splits)
  qed
qed

text \<open>
  What a client gets when the cache of rules is coherent: the cached certificate, or a fresh one.
\<close>

definition served :: "('ca, 'cert) sign \<Rightarrow> string \<Rightarrow> 'ca \<Rightarrow> ('ca, 'cert) domain_resolver \<Rightarrow> 'cert option" where
  "served sign n a res = (case map_of (certs_cache res) n of Some c \<Rightarrow> Some c | None \<Rightarrow> sign a [n])"

lemma resolve_cert_eq:
  assumes "rules.coherent s [] res"
  shows "fst (resolve_cert sign s (Some n) res) =
    (case cert_authority res of None \<Rightarrow> None
     | Some a \<Rightarrow> (case inner_resolve s n of Some r \<Rightarrow> if https r then served sign n a res else None | None \<Rightarrow> None))"
  using resolve_domain_coherent(1) [OF assms, of n]
  by (cases "map_of (certs_cache res) n")
    (simp_all add: resolve_cert_def split_beta sign_domain_def served_def split: option.split)

text \<open>A certificate once served is cached, and stays until it is invalidated.\<close>

lemma resolve_cert_cached:
  assumes "fst (resolve_cert sign s (Some n) res) = Some c"
  shows "map_of (certs_cache (snd (resolve_cert sign s (Some n) res))) n = Some c"
  using assms by (auto simp: resolve_cert_def split_beta Let_def sign_domain_def table_simps split: if_splits option.splits)

lemma resolve_cert_authority [simp]: "cert_authority (snd (resolve_cert sign s n res)) = cert_authority res"
  by (simp add: resolve_cert_def split_beta Let_def split: option.split)

lemma resolve_cert_again:
  assumes "rules.coherent s [] res" "fst (resolve_cert sign s (Some n) res) = Some c"
  shows "fst (resolve_cert sign' s (Some n) (snd (resolve_cert sign s (Some n) res))) = Some c"
  using resolve_cert_eq [OF resolve_cert_pending [OF assms(1)], of sign' n sign "Some n"] assms
    resolve_cert_eq [OF assms(1), of sign n] resolve_cert_cached [OF assms(2)]
  by (auto simp: served_def split: option.splits if_splits)

lemma resolver_sign_Some: "resolver_sign pki k a [n] = Some c \<longleftrightarrow> signed_by pki k a (domain_params [n]) = Inr c"
  by (auto simp: resolver_sign_def ca_sign_def split: sum.splits)

text \<open>The two invariants of a calm run from the start.\<close>

lemma calm_tls:
  assumes "config_ok lod disk" "calm sto (resolver_sign pki) xs (tls_daemon_start lod pki dir fs disk)"
    and "d = daemon_run sto (resolver_sign pki) xs (tls_daemon_start lod pki dir fs disk)" "d_queue d = []"
  shows "rules.coherent (store (d_app d)) [] (d_res d)" "tls_inv (resolver_sign pki) (daemon_ca pki dir fs) (d_res d)"
proof -
  have "daemon_inv d" using daemon_inv_run [OF daemon_inv_start [OF assms(1)]] assms(2,3)
    by (simp add: tls_daemon_start_def)
  then show "rules.coherent (store (d_app d)) [] (d_res d)"
    using assms(4) by (simp add: daemon_inv_def pending_rules_def List.map_filter_def)
  show "tls_inv (resolver_sign pki) (daemon_ca pki dir fs) (d_res d)"
    unfolding assms(3) tls_daemon_start_def by (rule tls_inv_run [OF tls_inv_start])
qed

section \<open>Properties\<close>

text \<open>
  C12. Whatever the interleaving, a certificate the daemon serves is for the name the client asked
  for. In every state the whole system can reach, a TLS client gets a certificate only if it
  names a server and the authority on disk at the start loaded, and the certificate is one that
  authority signed with exactly this name as its subject and for server authentication. No
  request, event or race changes the authority.
\<close>

theorem certificates_genuine:
  assumes "(sys_step ap rv sto (resolver_sign pki))\<^sup>*\<^sup>* (tls_system_start lod pki dir fs disk w) s"
    and "fst (resolve_cert (resolver_sign pki j) (store (y_app s)) n (d_res (y_daemon s))) = Some c"
  shows "\<exists>name a k. n = Some name \<and> ca_load pki dir fs = Inr a \<and> signed_by pki k a (domain_params [name]) = Inr c \<and>
    cert_authority (d_res (y_daemon s)) = Some a"
proof -
  have "tls_inv (resolver_sign pki) (daemon_ca pki dir fs) (d_res (y_daemon s))"
    by (rule tls_inv_steps [OF assms(1)]) (simp add: tls_system_start_def system_start_def tls_inv_start)
  with resolve_cert_signed [OF this assms(2)] show ?thesis
    by (auto simp: daemon_ca_def tls_inv_def resolver_sign_Some split: sum.splits)
qed

text \<open>
  C27. In every calm run, once the events are received, a TLS client gets exactly what the rules
  say: a certificate if the authority loaded and the rule in force for its name has HTTPS, and
  none otherwise. The certificate is the cached one, which the loaded authority signed for that
  name, or one it signs for that name now; asking again gives the same certificate, although
  signing again would give another.
\<close>

theorem certificates_follow_rules:
  assumes "config_ok lod disk" "calm sto (resolver_sign pki) xs (tls_daemon_start lod pki dir fs disk)"
    and "d = daemon_run sto (resolver_sign pki) xs (tls_daemon_start lod pki dir fs disk)" "d_queue d = []"
    and "got = resolve_cert (resolver_sign pki j) (store (d_app d)) (Some n) (d_res d)"
  shows "fst got =
      (case ca_load pki dir fs of
         Inl e \<Rightarrow> None
       | Inr a \<Rightarrow> (case inner_resolve (store (d_app d)) n of
                    None \<Rightarrow> None
                  | Some r \<Rightarrow> if https r then served (resolver_sign pki j) n a (d_res d) else None)) \<and>
    (\<forall>c. map_of (certs_cache (d_res d)) n = Some c \<longrightarrow>
      (\<exists>a k. ca_load pki dir fs = Inr a \<and> signed_by pki k a (domain_params [n]) = Inr c)) \<and>
    (\<forall>c i. fst got = Some c \<longrightarrow> fst (resolve_cert (resolver_sign pki i) (store (d_app d)) (Some n) (snd got)) = Some c)"
proof -
  note inv = calm_tls [OF assms(1-4)]
  then have ca: "cert_authority (d_res d) = daemon_ca pki dir fs"
    and cached: "map_of (certs_cache (d_res d)) n = Some c \<Longrightarrow>
      \<exists>a k. daemon_ca pki dir fs = Some a \<and> resolver_sign pki k a [n] = Some c" for c
    by (simp_all add: tls_inv_def)
  have "fst got = (case ca_load pki dir fs of Inl e \<Rightarrow> None | Inr a \<Rightarrow> (case inner_resolve (store (d_app d)) n of
      None \<Rightarrow> None | Some r \<Rightarrow> if https r then served (resolver_sign pki j) n a (d_res d) else None))"
    by (simp add: assms(5) resolve_cert_eq [OF inv(1)] ca daemon_ca_def split: sum.split option.split)
  moreover have "\<forall>c. map_of (certs_cache (d_res d)) n = Some c \<longrightarrow>
      (\<exists>a k. ca_load pki dir fs = Inr a \<and> signed_by pki k a (domain_params [n]) = Inr c)"
    using cached by (fastforce simp: daemon_ca_def resolver_sign_Some split: sum.splits)
  moreover have "\<forall>c i. fst got = Some c \<longrightarrow>
      fst (resolve_cert (resolver_sign pki i) (store (d_app d)) (Some n) (snd got)) = Some c"
    using resolve_cert_again [OF inv(1)] by (simp add: assms(5))
  ultimately show ?thesis by blast
qed

section \<open>A concrete daemon with an authority\<close>

text \<open>A certificate shows what was drawn, the key and the names.\<close>

definition demo_pki :: "(string, nat \<times> string \<times> string list) pki" where
  "demo_pki = \<lparr>issuer_from_pem = \<lambda>c k. Inr k, generate_ca = \<lambda>ps. Inr (''cert'', ''key'', ''key''),
     signed_by = \<lambda>k ca ps. Inr (k, ca, subject_alt_names ps)\<rparr>"

abbreviation demo_files :: files where
  "demo_files \<equiv> [cert_path ''/d'' \<mapsto> ''cert'', cert_key_path ''/d'' \<mapsto> ''key'']"

abbreviation demo_disk :: "dns_config option" where
  "demo_disk \<equiv> Some \<lparr>rules = [local_rule ''a.io'' 1 True]\<rparr>"

definition demo_tls :: "(string, nat \<times> string \<times> string list, dns_config option) daemon" where
  "demo_tls = tls_daemon_start id demo_pki ''/d'' demo_files demo_disk"

definition demo_tls_system :: "(string, nat \<times> string \<times> string list, dns_config option, files) system" where
  "demo_tls_system = tls_system_start id demo_pki ''/d'' demo_files demo_disk Map.empty"

lemma demo_load: "ca_load demo_pki ''/d'' demo_files = Inr ''key''"
  by (simp add: ca_load_def demo_pki_def)

lemma demo_sign: "resolver_sign demo_pki k ''key'' [n] = Some (k, ''key'', [n])"
  by (simp add: resolver_sign_def ca_sign_def demo_pki_def domain_params_def)

lemma demo_tls_store:
  "store (d_app demo_tls) = inner_add (local_rule ''a.io'' 1 True) inner_new" "d_queue demo_tls = []"
  "d_signing demo_tls = []"
  by (simp_all add: demo_tls_def tls_daemon_start_def daemon_start_def load_rules_def store_add_all_def inner_add_all_def
    app_state_new_def Let_def)

text \<open>The certificate of the rule is signed at the start, with the first draw.\<close>

lemma demo_presigned:
  "d_res demo_tls = \<lparr>cert_authority = Some ''key'', cache = [], certs_cache = [(''a.io'', 0, ''key'', [''a.io''])]\<rparr>"
  by (simp add: demo_tls_def tls_daemon_start_def daemon_start_def load_rules_def daemon_ca_def ca_is_installed_def
    demo_load is_cert_installed_def domain_resolver_new_def presign_def sign_domain_def demo_sign is_wildcard_def Let_def)

lemma demo_resolve: "inner_resolve (inner_add (local_rule ''a.io'' 1 True) inner_new) ''a.io'' = Some (local_rule ''a.io'' 1 True)"
  by code_simp

lemma demo_no_overlap: "no_overlap (inner_add (local_rule ''a.io'' 1 True) inner_new)"
  by (simp add: no_overlap_no_wildcards inner_add_def inner_new_def is_wildcard_def)

abbreviation demo_steps :: "daemon_step list" where
  "demo_steps \<equiv> [HelloBegin ''a.io'', Hello 5 (Some ''a.io'')]"

lemma demo_run:
  "d_app (daemon_run sample_sto (resolver_sign demo_pki) demo_steps demo_tls) = d_app demo_tls"
  "d_queue (daemon_run sample_sto (resolver_sign demo_pki) demo_steps demo_tls) = []"
  "certs_cache (d_res (daemon_run sample_sto (resolver_sign demo_pki) demo_steps demo_tls)) = [(''a.io'', 0, ''key'', [''a.io''])]"
  "calm sample_sto (resolver_sign demo_pki) demo_steps demo_tls"
  by (simp_all add: daemon_run_def demo_tls_store demo_no_overlap demo_presigned demo_resolve resolve_cert_def
    resolve_domain_def store_resolve_def)

theorem certificates_follow_rules_witness:
  "fst (resolve_cert (resolver_sign demo_pki 9) (store (d_app demo_tls)) (Some ''a.io'')
     (d_res (daemon_run sample_sto (resolver_sign demo_pki) demo_steps demo_tls))) = Some (0, ''key'', [''a.io''])"
  using certificates_follow_rules [OF demo_config demo_run(4) [unfolded demo_tls_def] refl, folded demo_tls_def,
      OF demo_run(2) refl, of 9 "''a.io''"] demo_resolve
  by (simp add: demo_run demo_tls_store demo_load demo_sign served_def)

theorem certificates_genuine_witness:
  "\<exists>c k. fst (resolve_cert (resolver_sign demo_pki 9) (store (y_app demo_tls_system)) (Some ''a.io'')
      (d_res (daemon_exec sample_sto (resolver_sign demo_pki) (Hello 5 (Some ''a.io'')) (y_daemon demo_tls_system)))) = Some c \<and>
    signed_by demo_pki k ''key'' (domain_params [''a.io'']) = Inr c"
proof -
  let ?s = "demo_tls_system\<lparr>y_daemon := daemon_exec sample_sto (resolver_sign demo_pki) (Hello 5 (Some ''a.io'')) (y_daemon demo_tls_system)\<rparr>"
  let ?step = "sys_step (systemd_apply all_ok) (systemd_revert all_ok) sample_sto (resolver_sign demo_pki)"
  have d: "y_daemon demo_tls_system = demo_tls"
    by (simp add: demo_tls_system_def tls_system_start_def system_start_def demo_tls_def tls_daemon_start_def)
  have "?step demo_tls_system ?s"
    by (rule sys_step.own) (simp_all add: demo_tls_system_def tls_system_start_def system_start_def)
  then have reach: "?step\<^sup>*\<^sup>* (tls_system_start id demo_pki ''/d'' demo_files demo_disk Map.empty) ?s"
    unfolding demo_tls_system_def by (rule r_into_rtranclp)
  have "fst (resolve_cert (resolver_sign demo_pki 9) (store (y_app ?s)) (Some ''a.io'') (d_res (y_daemon ?s))) = Some (0, ''key'', [''a.io''])"
    by (simp add: d demo_presigned demo_tls_store demo_resolve resolve_cert_def resolve_domain_def store_resolve_def)
  from certificates_genuine [OF reach this] this demo_load d show ?thesis by auto
qed

end
