(* ===== verification/Conformance.thy ===== *)
theory Conformance
  imports Ca Proxy
begin

text \<open>
  The program's own unit tests run on the model: core/tests (names, rules, store) and the test
  modules of core/src/dns/resolver.rs, core/src/proxy/server.rs and core/src/certs/ca.rs. Each
  test is a definition whose value says whether its assertions hold; an \<^verbatim>\<open>unwrap\<close> that panics
  makes it False. That the definitions evaluate to True is evidence that the model computes what
  the code computes.

  Tests of the certificate authority run for every library \<open>pki\<close> that does its work
  (\<open>pki_works\<close>). Left out are the assertions about the library alone: the markers of a PEM text
  and that two keys or two certificates differ.
\<close>

section \<open>Names, rules and the store\<close>

definition valid_names :: "string list" where
  "valid_names = [''localhost'', ''api.local'', ''a.b.local'', ''api2.local'', ''my-api.local'', ''API.LOCAL'', ''Api.Local'',
     ''*.api.local'', ''*.example.com'']"

definition invalid_names :: "string list" where
  "invalid_names = [''api'', ''*.local'', [], ''.'', ''.api.local'', ''api.local.'', ''api..local'', ''-api.local'', ''api-.local'',
     ''api local'', ''user@host.local'', ''api/local'', ''api'' @ backslash # ''local'', ''api:local'', ''my_api.local'', ''*'',
     ''*local'', ''**.local'', ''api.*.local'', ''*.*.local'', ''api!.local'']"

definition addr :: "u16 \<Rightarrow> socket_addr" where
  "addr port = socket_addr_new (V4 ipv4_localhost) port"

definition test_rule :: "string \<Rightarrow> u16 \<Rightarrow> dns_rule" where
  "test_rule d port = dns_rule_new d (addr port) False"

definition test_rule_https :: "string \<Rightarrow> u16 \<Rightarrow> dns_rule" where
  "test_rule_https d port = dns_rule_new d (addr port) True"

definition port_of :: "dns_rule option \<Rightarrow> u16 option" where
  "port_of r = map_option (\<lambda>r. addr_port (target r)) r"

definition test_is_wildcard :: bool where
  "test_is_wildcard = (is_wildcard (test_rule ''*.local'' 3000) \<and> is_wildcard (test_rule ''*.api.example.com'' 3000) \<and>
     \<not> is_wildcard (test_rule ''api.local'' 3000) \<and> \<not> is_wildcard (test_rule ''localhost'' 3000))"

definition test_matches :: bool where
  "test_matches = (matches (test_rule ''api.local'' 3000) ''api.local'' \<and> \<not> matches (test_rule ''api.local'' 3000) ''auth.local'' \<and>
     \<not> matches (test_rule ''API.local'' 3000) ''api.local'' \<and> matches (test_rule ''*.local'' 3000) ''api.local'' \<and>
     matches (test_rule ''*.local'' 3000) ''a.b.local'' \<and> \<not> matches (test_rule ''*.local'' 3000) ''local'' \<and>
     \<not> matches (test_rule ''*.local'' 3000) ''api.remote'' \<and> \<not> matches (test_rule ''*.local'' 3000) ''notlocal'' \<and>
     \<not> matches (test_rule ''*.local'' 3000) ''apilocal'')"

definition test_display :: bool where
  "test_display =
     (let s = rule_to_string (dns_rule_new ''api.local'' (addr 3000) False);
          t = rule_to_string (dns_rule_new ''api.local'' (addr 443) True)
      in contains s ''http://'' \<and> contains s ''api.local'' \<and> contains s ''3000'' \<and> contains t ''https://'')"

definition test_with_https :: bool where
  "test_with_https = (https (with_https (test_rule ''api.local'' 3000) True) \<and>
     \<not> https (with_https (dns_rule_new ''api.local'' (addr 443) True) False))"

definition test_rule_equality :: bool where
  "test_rule_equality = (dns_rule_new ''api.local'' (addr 3000) False = dns_rule_new ''api.local'' (addr 3000) False \<and>
     dns_rule_new ''api.local'' (addr 3000) False \<noteq> dns_rule_new ''api.local'' (addr 4000) False \<and>
     dns_rule_new ''api.local'' (addr 3000) False \<noteq> dns_rule_new ''api.local'' (addr 3000) True)"


definition test_exact_persistent_resolves :: bool where
  "test_exact_persistent_resolves =
     (let s = inner_new;
          s = inner_add (test_rule ''api.local'' 3000) s
      in port_of (inner_resolve s ''api.local'') = Some 3000)"

definition test_unknown_returns_none :: bool where
  "test_unknown_returns_none =
     (let s = inner_new
      in inner_resolve s ''ghost.local'' = None)"

definition test_ephemeral_takes_priority_over_persistent :: bool where
  "test_ephemeral_takes_priority_over_persistent =
     (let s = inner_new;
          s = inner_add (test_rule ''api.local'' 3000) s;
          s = inner_add_ephemeral (test_rule ''api.local'' 9000) s
      in port_of (inner_resolve s ''api.local'') = Some 9000)"

definition test_remove_ephemeral_falls_back_to_persistent :: bool where
  "test_remove_ephemeral_falls_back_to_persistent =
     (let s = inner_new;
          s = inner_add (test_rule ''api.local'' 3000) s;
          s = inner_add_ephemeral (test_rule ''api.local'' 9000) s;
          s = snd (inner_remove_ephemeral ''api.local'' s)
      in port_of (inner_resolve s ''api.local'') = Some 3000)"

definition test_wildcard_matches_subdomain :: bool where
  "test_wildcard_matches_subdomain =
     (let s = inner_new;
          s = inner_add (test_rule ''*.local'' 4000) s
      in port_of (inner_resolve s ''api.local'') = Some 4000 \<and> port_of (inner_resolve s ''auth.local'') = Some 4000)"

definition test_wildcard_does_not_match_root :: bool where
  "test_wildcard_does_not_match_root =
     (let s = inner_new;
          s = inner_add (test_rule ''*.local'' 4000) s
      in inner_resolve s ''local'' = None)"

definition test_exact_beats_wildcard :: bool where
  "test_exact_beats_wildcard =
     (let s = inner_new;
          s = inner_add (test_rule ''*.local'' 4000) s;
          s = inner_add (test_rule ''api.local'' 3000) s
      in port_of (inner_resolve s ''api.local'') = Some 3000)"

definition test_ephemeral_wildcard_beats_persistent_exact :: bool where
  "test_ephemeral_wildcard_beats_persistent_exact =
     (let s = inner_new;
          s = inner_add_ephemeral (test_rule ''*.local'' 9000) s;
          s = inner_add (test_rule ''api.local'' 3000) s
      in port_of (inner_resolve s ''api.local'') = Some 9000)"

definition test_persistent_wildcard_matches_after_exact_miss :: bool where
  "test_persistent_wildcard_matches_after_exact_miss =
     (let s = inner_new;
          s = inner_add (test_rule ''*.local'' 4000) s;
          s = inner_add (test_rule ''api.local'' 3000) s
      in port_of (inner_resolve s ''auth.local'') = Some 4000)"

definition test_remove_returns_none_for_unknown :: bool where
  "test_remove_returns_none_for_unknown =
     (let s = inner_new
      in fst (inner_remove ''unknown.local'' s) = None)"

definition test_add_replaces_existing_persistent :: bool where
  "test_add_replaces_existing_persistent =
     (let s = inner_new;
          s = inner_add (test_rule ''api.local'' 3000) s;
          s = inner_add (test_rule ''api.local'' 5000) s
      in port_of (inner_resolve s ''api.local'') = Some 5000)"

definition test_remove_persistent_keeps_ephemeral :: bool where
  "test_remove_persistent_keeps_ephemeral =
     (let s = inner_new;
          s = inner_add (test_rule ''api.local'' 3000) s;
          s = inner_add_ephemeral (test_rule ''api.local'' 9000) s;
          s = snd (inner_remove ''api.local'' s)
      in port_of (inner_resolve s ''api.local'') = Some 9000)"

definition test_inner_store_is_empty_initially :: bool where
  "test_inner_store_is_empty_initially =
     (let s = inner_new
      in inner_is_empty s \<and> inner_len s = 0)"

definition test_inner_store_len_counts_all_layers :: bool where
  "test_inner_store_len_counts_all_layers =
     (let s = inner_new;
          s = inner_add (test_rule ''api.local'' 3000) s;
          s = inner_add (test_rule ''*.local'' 4000) s;
          s = inner_add_ephemeral (test_rule ''tmp.local'' 9000) s
      in inner_len s = 3 \<and> \<not> inner_is_empty s)"

definition test_inner_store_remove_reduces_len :: bool where
  "test_inner_store_remove_reduces_len =
     (let s = inner_new;
          s = inner_add (test_rule ''api.local'' 3000) s;
          s = snd (inner_remove ''api.local'' s)
      in inner_len s = 0 \<and> inner_is_empty s)"

definition test_inner_store_all_rules_includes_ephemeral :: bool where
  "test_inner_store_all_rules_includes_ephemeral =
     (let s = inner_new;
          s = inner_add (test_rule ''api.local'' 3000) s;
          s = inner_add_ephemeral (test_rule ''tmp.local'' 9000) s
      in length (all_rules s) = 2)"

definition test_inner_store_persistent_rules_excludes_ephemeral :: bool where
  "test_inner_store_persistent_rules_excludes_ephemeral =
     (let s = inner_new;
          s = inner_add (test_rule ''api.local'' 3000) s;
          s = inner_add_ephemeral (test_rule ''tmp.local'' 9000) s
      in map domain (persistent_rules s) = [''api.local''])"

definition test_inner_store_remove_wildcard_clears_wildcard_not_exact :: bool where
  "test_inner_store_remove_wildcard_clears_wildcard_not_exact =
     (let s = inner_new;
          s = inner_add (test_rule ''*.local'' 4000) s;
          s = inner_add (test_rule ''api.local'' 3000) s;
          s = snd (inner_remove ''*.local'' s)
      in port_of (inner_resolve s ''api.local'') = Some 3000 \<and> inner_resolve s ''auth.local'' = None)"

definition test_inner_store_ephemeral_wildcard_beats_persistent_wildcard :: bool where
  "test_inner_store_ephemeral_wildcard_beats_persistent_wildcard =
     (let s = inner_new;
          s = inner_add (test_rule ''*.local'' 4000) s;
          s = inner_add_ephemeral (test_rule ''*.local'' 9000) s
      in port_of (inner_resolve s ''api.local'') = Some 9000)"

definition test_inner_store_remove_ephemeral_wildcard_falls_back_to_persistent_wildcard :: bool where
  "test_inner_store_remove_ephemeral_wildcard_falls_back_to_persistent_wildcard =
     (let s = inner_new;
          s = inner_add (test_rule ''*.local'' 4000) s;
          s = inner_add_ephemeral (test_rule ''*.local'' 9000) s;
          s = snd (inner_remove_ephemeral ''*.local'' s)
      in port_of (inner_resolve s ''api.local'') = Some 4000)"

definition test_add_and_resolve :: bool where
  "test_add_and_resolve =
     (let s = inner_new;
          s = snd (store_add (test_rule ''api.local'' 3000) s)
      in port_of (store_resolve s ''api.local'') = Some 3000)"

definition test_remove_returns_some_for_existing :: bool where
  "test_remove_returns_some_for_existing =
     (let s = inner_new;
          s = snd (store_add (test_rule ''api.local'' 3000) s)
      in fst (store_remove ''api.local'' s) \<noteq> None \<and> store_resolve (snd (store_remove ''api.local'' s)) ''api.local'' = None)"

definition test_rule_store_remove_returns_none_for_unknown :: bool where
  "test_rule_store_remove_returns_none_for_unknown =
     (let s = inner_new
      in fst (store_remove ''ghost.local'' s) = None)"

definition test_ephemeral_priority :: bool where
  "test_ephemeral_priority =
     (let s = inner_new;
          s = snd (store_add (test_rule ''api.local'' 3000) s);
          s = snd (store_add_ephemeral (test_rule ''api.local'' 9000) s)
      in port_of (store_resolve s ''api.local'') = Some 9000)"

definition test_remove_ephemeral_falls_back :: bool where
  "test_remove_ephemeral_falls_back =
     (let s = inner_new;
          s = snd (store_add (test_rule ''api.local'' 3000) s);
          s = snd (store_add_ephemeral (test_rule ''api.local'' 9000) s);
          s = snd (store_remove_ephemeral ''api.local'' s)
      in port_of (store_resolve s ''api.local'') = Some 3000)"

definition test_wildcard_resolves :: bool where
  "test_wildcard_resolves =
     (let s = inner_new;
          s = snd (store_add (test_rule ''*.local'' 4000) s)
      in port_of (store_resolve s ''api.local'') = Some 4000 \<and> port_of (store_resolve s ''auth.local'') = Some 4000)"

definition test_snapshot_persistent_excludes_ephemeral :: bool where
  "test_snapshot_persistent_excludes_ephemeral =
     (let s = inner_new;
          s = snd (store_add (test_rule ''api.local'' 3000) s);
          s = snd (store_add_ephemeral (test_rule ''tmp.local'' 9000) s)
      in map domain (snapshot_persistent s) = [''api.local''])"

definition test_rule_store_len_and_is_empty :: bool where
  "test_rule_store_len_and_is_empty =
     (let s = inner_new
      in store_is_empty s \<and> store_len (snd (store_add (test_rule ''api.local'' 3000) s)) = 1 \<and> \<not> store_is_empty (snd (store_add (test_rule ''api.local'' 3000) s)))"

definition test_rule_store_snapshot_all_includes_ephemeral :: bool where
  "test_rule_store_snapshot_all_includes_ephemeral =
     (let s = inner_new;
          s = snd (store_add (test_rule ''api.local'' 3000) s);
          s = snd (store_add_ephemeral (test_rule ''tmp.local'' 9000) s)
      in length (snapshot_all s) = 2)"

definition test_rule_store_remove_ephemeral_falls_back :: bool where
  "test_rule_store_remove_ephemeral_falls_back =
     (let s = inner_new;
          s = snd (store_add (test_rule ''api.local'' 3000) s);
          s = snd (store_add_ephemeral (test_rule ''api.local'' 9000) s);
          s = snd (store_remove_ephemeral ''api.local'' s)
      in port_of (store_resolve s ''api.local'') = Some 3000)"

definition test_rule_store_add_all_bulk_inserts :: bool where
  "test_rule_store_add_all_bulk_inserts =
     (let s = inner_new;
          s = snd (store_add_all [test_rule ''api.local'' 3000, test_rule ''auth.local'' 4000, test_rule ''*.internal'' 5000] s)
      in store_len s = 3 \<and> store_resolve s ''api.local'' \<noteq> None \<and> store_resolve s ''svc.internal'' \<noteq> None)"

lemma valid_names_ok: "list_all domain_ok valid_names"
  by code_simp

lemma invalid_names_not_ok: "list_all (\<lambda>d. \<not> domain_ok d) invalid_names"
  by code_simp

lemma name_tests: "list_all validate_domain valid_names" "list_all (\<lambda>d. \<not> validate_domain d) invalid_names"
proof -
  have "list_all ascii valid_names" "list_all ascii invalid_names"
    by (simp_all add: valid_names_def invalid_names_def backslash_def)
  with valid_names_ok invalid_names_not_ok
  show "list_all validate_domain valid_names" "list_all (\<lambda>d. \<not> validate_domain d) invalid_names"
    by (auto simp: list_all_iff validate_domain_eq_ok)
qed

lemma display_test: test_display
  by (simp add: test_display_def rule_to_string_def dns_rule_new_def addr_def show_dec.simps digit_def starts_with_def arrow_def)

lemma rule_tests: test_is_wildcard test_matches test_with_https test_rule_equality
  by code_simp+


lemma store_tests:
  test_exact_persistent_resolves
  test_unknown_returns_none
  test_ephemeral_takes_priority_over_persistent
  test_remove_ephemeral_falls_back_to_persistent
  test_wildcard_matches_subdomain
  test_wildcard_does_not_match_root
  test_exact_beats_wildcard
  test_ephemeral_wildcard_beats_persistent_exact
  test_persistent_wildcard_matches_after_exact_miss
  test_remove_returns_none_for_unknown
  test_add_replaces_existing_persistent
  test_remove_persistent_keeps_ephemeral
  test_inner_store_is_empty_initially
  test_inner_store_len_counts_all_layers
  test_inner_store_remove_reduces_len
  test_inner_store_all_rules_includes_ephemeral
  test_inner_store_persistent_rules_excludes_ephemeral
  test_inner_store_remove_wildcard_clears_wildcard_not_exact
  test_inner_store_ephemeral_wildcard_beats_persistent_wildcard
  test_inner_store_remove_ephemeral_wildcard_falls_back_to_persistent_wildcard
  test_add_and_resolve
  test_remove_returns_some_for_existing
  test_rule_store_remove_returns_none_for_unknown
  test_ephemeral_priority
  test_remove_ephemeral_falls_back
  test_wildcard_resolves
  test_snapshot_persistent_excludes_ephemeral
  test_rule_store_len_and_is_empty
  test_rule_store_snapshot_all_includes_ephemeral
  test_rule_store_remove_ephemeral_falls_back
  test_rule_store_add_all_bulk_inserts
  by code_simp+


section \<open>The caching resolver\<close>

definition make_resolver :: "'ca option \<Rightarrow> ('ca, 'cert) domain_resolver \<times> app_state" where
  "make_resolver ca = (let state = app_state_new False in (domain_resolver_new ca, state))"

text \<open>With an authority: what follows, if one can be generated.\<close>

definition make_resolver_with_ca ::
    "('ca, 'cert) pki \<Rightarrow> (string \<Rightarrow> string option) \<Rightarrow> (('ca, 'cert) domain_resolver \<times> app_state) option" where
  "make_resolver_with_ca pki env =
     (case ca_generate pki env of Inr (_, ca) \<Rightarrow> Some (make_resolver (Some ca)) | Inl _ \<Rightarrow> None)"

abbreviation no_ca :: "(unit, unit) domain_resolver \<times> app_state" where
  "no_ca \<equiv> make_resolver None"

abbreviation state_add :: "dns_rule \<Rightarrow> app_state \<Rightarrow> app_state" where
  "state_add r st \<equiv> st\<lparr>store := snd (store_add r (store st))\<rparr>"

abbreviation cached :: "('ca, 'cert) domain_resolver \<Rightarrow> string \<Rightarrow> bool" where
  "cached res d \<equiv> map_of (cache res) d \<noteq> None"

abbreviation cert_cached :: "('ca, 'cert) domain_resolver \<Rightarrow> string \<Rightarrow> bool" where
  "cert_cached res d \<equiv> map_of (certs_cache res) d \<noteq> None"


definition test_resolve_populates_cache_on_miss :: bool where
  "test_resolve_populates_cache_on_miss =
     (let (res, st) = no_ca;
          st = state_add (test_rule ''api.local'' 3000) st;
          (result, res) = resolve_domain (store st) ''api.local'' res
      in port_of result = Some 3000 \<and> cached res ''api.local'')"

definition test_resolve_cache_hit_returns_same_value :: bool where
  "test_resolve_cache_hit_returns_same_value =
     (let (res, st) = no_ca;
          st = state_add (test_rule ''api.local'' 3000) st;
          res = snd (resolve_domain (store st) ''api.local'' res);
          st = state_add (test_rule ''api.local'' 9999) st
      in port_of (fst (resolve_domain (store st) ''api.local'' res)) = Some 3000)"

definition test_resolve_returns_none_for_unknown :: bool where
  "test_resolve_returns_none_for_unknown = (let (res, st) = no_ca in fst (resolve_domain (store st) ''ghost.local'' res) = None)"

definition test_invalidate_removes_exact_domain_from_cache :: bool where
  "test_invalidate_removes_exact_domain_from_cache =
     (let (res, st) = no_ca;
          st = state_add (test_rule ''api.local'' 3000) st;
          res = snd (resolve_domain (store st) ''api.local'' res);
          before = cached res ''api.local'';
          res = invalidate (test_rule ''api.local'' 3000) res
      in before \<and> \<not> cached res ''api.local'')"

definition test_invalidate_exact_does_not_remove_other_domains :: bool where
  "test_invalidate_exact_does_not_remove_other_domains =
     (let (res, st) = no_ca;
          st = state_add (test_rule ''api.local'' 3000) st;
          st = state_add (test_rule ''auth.local'' 4000) st;
          res = snd (resolve_domain (store st) ''api.local'' res);
          res = snd (resolve_domain (store st) ''auth.local'' res);
          res = invalidate (test_rule ''api.local'' 3000) res
      in \<not> cached res ''api.local'' \<and> cached res ''auth.local'')"

definition test_invalidate_wildcard_removes_matching_cached_entries :: bool where
  "test_invalidate_wildcard_removes_matching_cached_entries =
     (let (res, st) = no_ca;
          st = state_add (test_rule ''*.local'' 4000) st;
          res = snd (resolve_domain (store st) ''api.local'' res);
          res = snd (resolve_domain (store st) ''auth.local'' res);
          before = (cached res ''api.local'' \<and> cached res ''auth.local'');
          res = invalidate (test_rule ''*.local'' 4000) res
      in before \<and> \<not> cached res ''api.local'' \<and> \<not> cached res ''auth.local'')"

definition test_invalidate_wildcard_does_not_remove_non_matching :: bool where
  "test_invalidate_wildcard_does_not_remove_non_matching =
     (let (res, st) = no_ca;
          st = state_add (test_rule ''api.remote'' 5000) st;
          res = snd (resolve_domain (store st) ''api.remote'' res);
          before = cached res ''api.remote'';
          res = invalidate (test_rule ''*.local'' 4000) res
      in before \<and> cached res ''api.remote'')"

definition test_invalidate_wildcard_does_not_remove_root_domain :: bool where
  "test_invalidate_wildcard_does_not_remove_root_domain =
     (let (res, st) = no_ca;
          st = state_add (test_rule ''local'' 5000) st;
          res = snd (resolve_domain (store st) ''local'' res);
          before = cached res ''local'';
          res = invalidate (test_rule ''*.local'' 4000) res
      in before \<and> cached res ''local'')"

definition test_sign_domain_returns_none_when_no_ca :: bool where
  "test_sign_domain_returns_none_when_no_ca = (let (res, st) = no_ca in fst (sign_domain (\<lambda>ca ds. Some ()) ''api.local'' res) = None)"

definition test_invalidate_removes_exact_domain_from_certs_cache :: "('ca, 'cert) pki \<Rightarrow> (string \<Rightarrow> string option) \<Rightarrow> bool" where
  "test_invalidate_removes_exact_domain_from_certs_cache pki env =
     (case make_resolver_with_ca pki env of
        None \<Rightarrow> False
      | Some (res, st) \<Rightarrow>
          (let st = state_add (test_rule_https ''api.local'' 3000) st;
               res = snd (sign_domain (resolver_sign pki 0) ''api.local'' res);
               (rule, res) = resolve_domain (store st) ''api.local'' res;
               before = cert_cached res ''api.local'';
               res = invalidate (test_rule_https ''api.local'' 3000) res
           in rule \<noteq> None \<and> before \<and> \<not> cert_cached res ''api.local'' \<and> \<not> cached res ''api.local''))"

definition test_sign_domain_returns_cert_and_caches_it :: "('ca, 'cert) pki \<Rightarrow> (string \<Rightarrow> string option) \<Rightarrow> bool" where
  "test_sign_domain_returns_cert_and_caches_it pki env =
     (case make_resolver_with_ca pki env of
        None \<Rightarrow> False
      | Some (res, st) \<Rightarrow>
          (let (cert, res) = sign_domain (resolver_sign pki 0) ''api.local'' res
           in cert \<noteq> None \<and> cert_cached res ''api.local''))"

definition test_sign_domain_caches_cert_on_repeated_calls :: "('ca, 'cert) pki \<Rightarrow> (string \<Rightarrow> string option) \<Rightarrow> bool" where
  "test_sign_domain_caches_cert_on_repeated_calls pki env =
     (case make_resolver_with_ca pki env of
        None \<Rightarrow> False
      | Some (res, st) \<Rightarrow>
          (let res = snd (sign_domain (resolver_sign pki 0) ''api.local'' res);
               res = snd (sign_domain (resolver_sign pki 1) ''api.local'' res)
           in length (certs_cache res) = 1))"

lemma resolver_tests:
  test_resolve_populates_cache_on_miss
  test_resolve_cache_hit_returns_same_value
  test_resolve_returns_none_for_unknown
  test_invalidate_removes_exact_domain_from_cache
  test_invalidate_exact_does_not_remove_other_domains
  test_invalidate_wildcard_removes_matching_cached_entries
  test_invalidate_wildcard_does_not_remove_non_matching
  test_invalidate_wildcard_does_not_remove_root_domain
  test_sign_domain_returns_none_when_no_ca
  by code_simp+

section \<open>The proxy\<close>

text \<open>
  Header names are kept in lower case, so a lookup with any case of the name is one with its
  lower case. The names of the tests are valid.
\<close>

definition test_headers :: "(string \<times> string) list \<Rightarrow> headers option" where
  "test_headers pairs =
     fold (\<lambda>(k, v) m. Option.bind m (\<lambda>hs. map_option (\<lambda>v'. hm_insert (to_ascii_lowercase k) v' hs) (header_value v)))
       pairs (Some [])"

definition on_headers :: "(string \<times> string) list \<Rightarrow> (headers \<Rightarrow> bool) \<Rightarrow> bool" where
  "on_headers ps f = (case test_headers ps of Some h \<Rightarrow> f h | None \<Rightarrow> False)"


definition test_ws_upgrade_and_connection_upgrade :: bool where
  "test_ws_upgrade_and_connection_upgrade =
     on_headers [(''upgrade'', ''websocket''), (''connection'', ''Upgrade'')] (\<lambda>h. is_websocket h)"

definition test_ws_upgrade_mixed_case :: bool where
  "test_ws_upgrade_mixed_case =
     on_headers [(''upgrade'', ''WebSocket''), (''connection'', ''keep-alive, Upgrade'')] (\<lambda>h. is_websocket h)"

definition test_ws_false_without_upgrade_header :: bool where
  "test_ws_false_without_upgrade_header =
     on_headers [(''connection'', ''Upgrade'')] (\<lambda>h. \<not> is_websocket h)"

definition test_ws_false_without_connection_header :: bool where
  "test_ws_false_without_connection_header =
     on_headers [(''upgrade'', ''websocket'')] (\<lambda>h. \<not> is_websocket h)"

definition test_ws_false_for_h2c_upgrade :: bool where
  "test_ws_false_for_h2c_upgrade =
     on_headers [(''upgrade'', ''h2c''), (''connection'', ''Upgrade'')] (\<lambda>h. \<not> is_websocket h)"

definition test_ws_false_for_empty_headers :: bool where
  "test_ws_false_for_empty_headers =
     (\<not> is_websocket [])"

definition test_extract_host_strips_port :: bool where
  "test_extract_host_strips_port =
     on_headers [(''host'', ''api.local:8080'')] (\<lambda>h. extract_host h = Some ''api.local'')"

definition test_extract_host_without_port :: bool where
  "test_extract_host_without_port =
     on_headers [(''host'', ''api.local'')] (\<lambda>h. extract_host h = Some ''api.local'')"

definition test_extract_host_lowercases :: bool where
  "test_extract_host_lowercases =
     on_headers [(''host'', ''API.LOCAL:80'')] (\<lambda>h. extract_host h = Some ''api.local'')"

definition test_extract_host_none_when_missing :: bool where
  "test_extract_host_none_when_missing =
     (extract_host [] = None)"

definition test_proxy_headers_http_proto :: bool where
  "test_proxy_headers_http_proto =
     (let h = add_proxy_headers (V4 ipv4_localhost) False [] in hm_get (to_ascii_lowercase ''X-Forwarded-Proto'') h = Some ''http'')"

definition test_proxy_headers_https_proto :: bool where
  "test_proxy_headers_https_proto =
     (let h = add_proxy_headers (V4 ipv4_localhost) True [] in hm_get (to_ascii_lowercase ''X-Forwarded-Proto'') h = Some ''https'')"

definition test_proxy_headers_sets_real_ip_and_forwarded_for :: bool where
  "test_proxy_headers_sets_real_ip_and_forwarded_for =
     (let h = add_proxy_headers (V4 (Ipv4Addr 10 0 0 1)) False []
      in hm_get (to_ascii_lowercase ''X-Real-IP'') h = Some ''10.0.0.1'' \<and> hm_get (to_ascii_lowercase ''X-Forwarded-For'') h = Some ''10.0.0.1'')"

definition test_proxy_headers_ipv6 :: bool where
  "test_proxy_headers_ipv6 =
     (let h = add_proxy_headers (V6 ipv6_localhost) False []
      in hm_get (to_ascii_lowercase ''X-Real-IP'') h \<noteq> None \<and> hm_get (to_ascii_lowercase ''X-Forwarded-For'') h \<noteq> None)"

definition test_strip_removes_proxy_authorization :: bool where
  "test_strip_removes_proxy_authorization =
     on_headers [(''proxy-authorization'', ''Basic xyz'')] (\<lambda>h. let h = strip_hop_by_hop h in hm_get ''proxy-authorization'' h = None)"

definition test_strip_removes_transfer_encoding :: bool where
  "test_strip_removes_transfer_encoding =
     on_headers [(''transfer-encoding'', ''chunked'')] (\<lambda>h. let h = strip_hop_by_hop h in hm_get ''transfer-encoding'' h = None)"

definition test_strip_removes_te :: bool where
  "test_strip_removes_te =
     on_headers [(''te'', ''trailers'')] (\<lambda>h. let h = strip_hop_by_hop h in hm_get ''te'' h = None)"

definition test_strip_removes_trailer :: bool where
  "test_strip_removes_trailer =
     on_headers [(''trailer'', ''Expires'')] (\<lambda>h. let h = strip_hop_by_hop h in hm_get ''trailer'' h = None)"

definition test_strip_removes_connection_for_plain_http :: bool where
  "test_strip_removes_connection_for_plain_http =
     on_headers [(''connection'', ''keep-alive''), (''content-type'', ''application/json'')] (\<lambda>h. let h = strip_hop_by_hop h in hm_get ''connection'' h = None \<and> hm_get ''content-type'' h \<noteq> None)"

definition test_strip_keeps_connection_upgrade_for_websocket :: bool where
  "test_strip_keeps_connection_upgrade_for_websocket =
     on_headers [(''upgrade'', ''websocket''), (''connection'', ''Upgrade'')] (\<lambda>h. let h = strip_hop_by_hop h in hm_get ''connection'' h \<noteq> None \<and> hm_get ''upgrade'' h \<noteq> None)"

definition test_strip_preserves_unrelated_headers :: bool where
  "test_strip_preserves_unrelated_headers =
     on_headers [(''authorization'', ''Bearer token''), (''cookie'', ''session=abc''), (''content-type'', ''application/json'')] (\<lambda>h. let h = strip_hop_by_hop h in 
        hm_get ''authorization'' h \<noteq> None \<and> hm_get ''cookie'' h \<noteq> None \<and> hm_get ''content-type'' h \<noteq> None)"

definition test_strip_removes_proxy_connection :: bool where
  "test_strip_removes_proxy_connection =
     on_headers [(''proxy-connection'', ''keep-alive'')] (\<lambda>h. let h = strip_hop_by_hop h in hm_get ''proxy-connection'' h = None)"

definition test_strip_noop_on_empty_headers :: bool where
  "test_strip_noop_on_empty_headers =
     (strip_hop_by_hop [] = [])"

text \<open>Every literal of these tests is evaluated by rewriting.\<close>

lemmas header_test_defs = on_headers_def test_headers_def header_value_def value_byte_def hm_insert_def hm_remove_def hm_get_def
  to_ascii_lowercase_def lower_char_def ascii_upper_def to_str_def visible_def is_websocket_def starts_with_def char_of_def bit_0

lemma websocket_tests:
  test_ws_upgrade_and_connection_upgrade test_ws_upgrade_mixed_case test_ws_false_without_upgrade_header
  test_ws_false_without_connection_header test_ws_false_for_h2c_upgrade test_ws_false_for_empty_headers
  by (simp_all add: test_ws_upgrade_and_connection_upgrade_def test_ws_upgrade_mixed_case_def
    test_ws_false_without_upgrade_header_def test_ws_false_without_connection_header_def
    test_ws_false_for_h2c_upgrade_def test_ws_false_for_empty_headers_def header_test_defs)

lemma host_tests:
  test_extract_host_strips_port test_extract_host_without_port test_extract_host_lowercases
  test_extract_host_none_when_missing
  by (simp_all add: test_extract_host_strips_port_def test_extract_host_without_port_def test_extract_host_lowercases_def
    test_extract_host_none_when_missing_def header_test_defs extract_host_def kelvin_def split_next_def)

lemma proxy_header_tests:
  test_proxy_headers_http_proto test_proxy_headers_https_proto test_proxy_headers_sets_real_ip_and_forwarded_for
  test_proxy_headers_ipv6
  by (simp_all add: test_proxy_headers_http_proto_def test_proxy_headers_https_proto_def
    test_proxy_headers_sets_real_ip_and_forwarded_for_def test_proxy_headers_ipv6_def header_test_defs
    add_proxy_headers_def insert_value_def show_dec.simps show_hex.simps ipv6_to_string_def Let_def digit_def)

lemma strip_tests:
  test_strip_removes_proxy_authorization test_strip_removes_transfer_encoding test_strip_removes_te
  test_strip_removes_trailer test_strip_removes_connection_for_plain_http test_strip_removes_proxy_connection
  test_strip_noop_on_empty_headers
  by (simp_all add: test_strip_removes_proxy_authorization_def test_strip_removes_transfer_encoding_def test_strip_removes_te_def
    test_strip_removes_trailer_def test_strip_removes_connection_for_plain_http_def
    test_strip_removes_proxy_connection_def test_strip_noop_on_empty_headers_def header_test_defs
    strip_hop_by_hop_def HOP_BY_HOP_HEADERS_def)

lemma strip_keeps_tests:
  test_strip_keeps_connection_upgrade_for_websocket test_strip_preserves_unrelated_headers
  by (simp_all add: test_strip_keeps_connection_upgrade_for_websocket_def test_strip_preserves_unrelated_headers_def
    header_test_defs strip_hop_by_hop_def HOP_BY_HOP_HEADERS_def)

section \<open>The certificate authority\<close>

text \<open>
  The tests use a fresh directory in which everything can be written. The chain of a signed
  certificate has one element by construction, so that it is not empty says that signing
  succeeded.
\<close>

type_synonym env = "string \<Rightarrow> string option"

abbreviation is_ok :: "'e + 'a \<Rightarrow> bool" where
  "is_ok r \<equiv> (case r of Inr _ \<Rightarrow> True | Inl _ \<Rightarrow> False)"

definition generated :: "('ca, 'cert) pki \<Rightarrow> env \<Rightarrow> (ca_pem \<Rightarrow> 'ca \<Rightarrow> bool) \<Rightarrow> bool" where
  "generated pki env f = (case ca_generate pki env of Inr (pem, ca) \<Rightarrow> f pem ca | Inl _ \<Rightarrow> False)"

definition saved :: "string \<Rightarrow> ca_pem \<Rightarrow> (files \<Rightarrow> bool) \<Rightarrow> bool" where
  "saved dir pem f = (case ca_save all_ok dir pem Map.empty of (Inr _, fs) \<Rightarrow> f fs | (Inl _, fs) \<Rightarrow> False)"

definition loaded :: "('ca, 'cert) pki \<Rightarrow> string \<Rightarrow> files \<Rightarrow> ('ca \<Rightarrow> bool) \<Rightarrow> bool" where
  "loaded pki dir fs f = (case ca_load pki dir fs of Inr ca \<Rightarrow> f ca | Inl _ \<Rightarrow> False)"

definition provided :: "('ca, 'cert) pki \<Rightarrow> env \<Rightarrow> string \<Rightarrow> files \<Rightarrow> ('ca \<Rightarrow> files \<Rightarrow> bool) \<Rightarrow> bool" where
  "provided pki env dir fs f = (case ca_load_or_generate all_ok pki env dir fs of (Inr ca, fs') \<Rightarrow> f ca fs' | (Inl _, fs') \<Rightarrow> False)"


definition test_generate_and_sign :: "('ca, 'cert) pki \<Rightarrow> env \<Rightarrow> bool" where
  "test_generate_and_sign pki env =
     generated pki env (\<lambda>pem ca. is_ok (ca_sign pki 0 ca [''api.local'']))"

definition test_generate_sign_multiple_sans :: "('ca, 'cert) pki \<Rightarrow> env \<Rightarrow> bool" where
  "test_generate_sign_multiple_sans pki env =
     generated pki env (\<lambda>pem ca. is_ok (ca_sign pki 0 ca [''api.local'', ''auth.local'', ''*.dev.local'']))"

definition test_save_and_load_produces_valid_issuer :: "('ca, 'cert) pki \<Rightarrow> env \<Rightarrow> string \<Rightarrow> bool" where
  "test_save_and_load_produces_valid_issuer pki env dir =
     generated pki env (\<lambda>pem ca. saved dir pem (\<lambda>fs. loaded pki dir fs (\<lambda>ca. is_ok (ca_sign pki 0 ca [''api.local'']))))"

definition test_load_or_generate_creates_files_when_missing :: "('ca, 'cert) pki \<Rightarrow> env \<Rightarrow> string \<Rightarrow> bool" where
  "test_load_or_generate_creates_files_when_missing pki env dir =
     provided pki env dir Map.empty (\<lambda>ca fs. fs (cert_path dir) \<noteq> None \<and> fs (cert_key_path dir) \<noteq> None)"

definition test_load_or_generate_reuses_existing :: "('ca, 'cert) pki \<Rightarrow> env \<Rightarrow> string \<Rightarrow> bool" where
  "test_load_or_generate_reuses_existing pki env dir =
     provided pki env dir Map.empty (\<lambda>ca1 fs. provided pki env dir fs (\<lambda>ca2 fs'. ca1 = ca2))"

definition test_sign_single_domain :: "('ca, 'cert) pki \<Rightarrow> env \<Rightarrow> bool" where
  "test_sign_single_domain pki env =
     generated pki env (\<lambda>pem ca. is_ok (ca_sign pki 0 ca [''api.local'']))"

definition test_sign_empty_domains_errors :: "('ca, 'cert) pki \<Rightarrow> env \<Rightarrow> bool" where
  "test_sign_empty_domains_errors pki env =
     generated pki env (\<lambda>pem ca. \<not> is_ok (ca_sign pki 0 ca []))"

definition test_sign_wildcard_domain :: "('ca, 'cert) pki \<Rightarrow> env \<Rightarrow> bool" where
  "test_sign_wildcard_domain pki env =
     generated pki env (\<lambda>pem ca. is_ok (ca_sign pki 0 ca [''*.local'']))"

definition test_sign_multiple_sans :: "('ca, 'cert) pki \<Rightarrow> env \<Rightarrow> bool" where
  "test_sign_multiple_sans pki env =
     generated pki env (\<lambda>pem ca. is_ok (ca_sign pki 0 ca [''api.local'', ''auth.local'', ''*.dev.local'']))"

definition test_sign_localhost :: "('ca, 'cert) pki \<Rightarrow> env \<Rightarrow> bool" where
  "test_sign_localhost pki env =
     generated pki env (\<lambda>pem ca. is_ok (ca_sign pki 0 ca [''localhost'']))"

definition test_save_creates_cert_and_key_files :: "('ca, 'cert) pki \<Rightarrow> env \<Rightarrow> string \<Rightarrow> bool" where
  "test_save_creates_cert_and_key_files pki env dir =
     generated pki env (\<lambda>pem ca. saved dir pem (\<lambda>fs. fs (cert_path dir) \<noteq> None \<and> fs (cert_key_path dir) \<noteq> None))"

definition test_load_after_save_can_sign :: "('ca, 'cert) pki \<Rightarrow> env \<Rightarrow> string \<Rightarrow> bool" where
  "test_load_after_save_can_sign pki env dir =
     generated pki env (\<lambda>pem ca. saved dir pem (\<lambda>fs. loaded pki dir fs (\<lambda>ca. is_ok (ca_sign pki 0 ca [''api.local'']))))"

definition test_load_preserves_cert_pem_content :: "('ca, 'cert) pki \<Rightarrow> env \<Rightarrow> string \<Rightarrow> bool" where
  "test_load_preserves_cert_pem_content pki env dir =
     generated pki env (\<lambda>pem ca. saved dir pem (\<lambda>fs. fs (cert_path dir) = Some (pem_cert pem)))"

definition test_load_nonexistent_dir_returns_error :: "('ca, 'cert) pki \<Rightarrow> bool" where
  "test_load_nonexistent_dir_returns_error pki =
     (\<not> is_ok (ca_load pki ''/tmp/sidedns-definitely-does-not-exist-xyz'' Map.empty))"

definition test_load_or_generate_creates_files_when_absent :: "('ca, 'cert) pki \<Rightarrow> env \<Rightarrow> string \<Rightarrow> bool" where
  "test_load_or_generate_creates_files_when_absent pki env dir =
     provided pki env dir Map.empty (\<lambda>ca fs. fs (cert_path dir) \<noteq> None \<and> fs (cert_key_path dir) \<noteq> None)"

definition test_load_or_generate_reuses_without_regenerating :: "('ca, 'cert) pki \<Rightarrow> env \<Rightarrow> string \<Rightarrow> bool" where
  "test_load_or_generate_reuses_without_regenerating pki env dir =
     generated pki env (\<lambda>pem ca. saved dir pem (\<lambda>fs. provided pki env dir fs (\<lambda>ca fs'. fs' (cert_path dir) = Some (pem_cert pem))))"

definition test_load_or_generate_can_sign_after_reload :: "('ca, 'cert) pki \<Rightarrow> env \<Rightarrow> string \<Rightarrow> bool" where
  "test_load_or_generate_can_sign_after_reload pki env dir =
     provided pki env dir Map.empty (\<lambda>ca fs. provided pki env dir fs (\<lambda>ca fs'. is_ok (ca_sign pki 0 ca [''api.local''])))"

text \<open>
  What the tests take of the library: an authority can be generated, its texts parse to it, and
  it signs any certificate.
\<close>

definition pki_works :: "('ca, 'cert) pki \<Rightarrow> env \<Rightarrow> bool" where
  "pki_works pki env = (pem_round_trip pki (root_params env) \<and>
     (\<exists>c k ca. generate_ca pki (root_params env) = Inr (c, k, ca) \<and> (\<forall>i ps. \<exists>cert. signed_by pki i ca ps = Inr cert)))"

lemma pki_worksE:
  assumes "pki_works pki env"
  obtains pem ca where "ca_generate pki env = Inr (pem, ca)" "issuer_from_pem pki (pem_cert pem) (pem_key pem) = Inr ca"
    "\<And>i ds. ds \<noteq> [] \<Longrightarrow> \<exists>cert. ca_sign pki i ca ds = Inr cert"
    "\<And>dir. ca_save all_ok dir pem Map.empty = (Inr (), [cert_path dir \<mapsto> pem_cert pem, cert_key_path dir \<mapsto> pem_key pem])"
    "\<And>dir. ca_load_or_generate all_ok pki env dir Map.empty =
       (Inr ca, [cert_path dir \<mapsto> pem_cert pem, cert_key_path dir \<mapsto> pem_key pem])"
proof -
  from assms obtain c k ca where g: "generate_ca pki (root_params env) = Inr (c, k, ca)"
    and r: "issuer_from_pem pki c k = Inr ca" and s: "\<And>i ps. \<exists>cert. signed_by pki i ca ps = Inr cert"
    by (auto simp: pki_works_def pem_round_trip_def)
  let ?pem = "\<lparr>pem_cert = c, pem_key = k\<rparr>"
  have gen: "ca_generate pki env = Inr (?pem, ca)" by (simp add: ca_generate_def g)
  have sv: "ca_save all_ok dir ?pem Map.empty = (Inr (), [cert_path dir \<mapsto> c, cert_key_path dir \<mapsto> k])" for dir
    by (simp add: ca_save_def andthen_def write_file_def all_ok_def)
  show thesis
  proof (rule that [of ?pem ca])
    show "ca_load_or_generate all_ok pki env dir Map.empty =
      (Inr ca, [cert_path dir \<mapsto> pem_cert ?pem, cert_key_path dir \<mapsto> pem_key ?pem])" for dir
      by (simp add: ca_load_or_generate_def ca_load_def gen sv)
  qed (use r s gen sv in \<open>simp_all add: ca_sign_def\<close>)
qed


lemma ca_tests:
  assumes "pki_works pki env"
  shows "test_generate_and_sign pki env"
    "test_generate_sign_multiple_sans pki env"
    "test_save_and_load_produces_valid_issuer pki env dir"
    "test_load_or_generate_creates_files_when_missing pki env dir"
    "test_load_or_generate_reuses_existing pki env dir"
    "test_sign_single_domain pki env"
    "test_sign_empty_domains_errors pki env"
    "test_sign_wildcard_domain pki env"
    "test_sign_multiple_sans pki env"
    "test_sign_localhost pki env"
    "test_save_creates_cert_and_key_files pki env dir"
    "test_load_after_save_can_sign pki env dir"
    "test_load_preserves_cert_pem_content pki env dir"
    "test_load_nonexistent_dir_returns_error pki"
    "test_load_or_generate_creates_files_when_absent pki env dir"
    "test_load_or_generate_reuses_without_regenerating pki env dir"
    "test_load_or_generate_can_sign_after_reload pki env dir"
proof -
  from assms obtain pem ca where w: "ca_generate pki env = Inr (pem, ca)" "issuer_from_pem pki (pem_cert pem) (pem_key pem) = Inr ca"
    "\<And>i ds. ds \<noteq> [] \<Longrightarrow> \<exists>cert. ca_sign pki i ca ds = Inr cert"
    "\<And>dir. ca_save all_ok dir pem Map.empty = (Inr (), [cert_path dir \<mapsto> pem_cert pem, cert_key_path dir \<mapsto> pem_key pem])"
    "\<And>dir. ca_load_or_generate all_ok pki env dir Map.empty =
       (Inr ca, [cert_path dir \<mapsto> pem_cert pem, cert_key_path dir \<mapsto> pem_key pem])"
    by (rule pki_worksE) blast
  have again: "ca_load_or_generate all_ok pki env dir [cert_path dir \<mapsto> pem_cert pem, cert_key_path dir \<mapsto> pem_key pem] =
      (Inr ca, [cert_path dir \<mapsto> pem_cert pem, cert_key_path dir \<mapsto> pem_key pem])" for dir
    by (simp add: ca_load_or_generate_def ca_load_def w(2))
  have sign: "is_ok (ca_sign pki i ca (d # ds))" for i d ds
    using w(3) [of "d # ds" i] by auto
  have none: "\<not> is_ok (ca_sign pki i ca [])" for i by (simp add: ca_sign_def)
  note tests = generated_def saved_def loaded_def provided_def ca_load_saved w(1,2,4,5) again sign none

  show "test_generate_and_sign pki env" by (simp add: test_generate_and_sign_def tests)
  show "test_generate_sign_multiple_sans pki env" by (simp add: test_generate_sign_multiple_sans_def tests)
  show "test_save_and_load_produces_valid_issuer pki env dir" by (simp add: test_save_and_load_produces_valid_issuer_def tests)
  show "test_load_or_generate_creates_files_when_missing pki env dir" by (simp add: test_load_or_generate_creates_files_when_missing_def tests)
  show "test_load_or_generate_reuses_existing pki env dir" by (simp add: test_load_or_generate_reuses_existing_def tests)
  show "test_sign_single_domain pki env" by (simp add: test_sign_single_domain_def tests)
  show "test_sign_empty_domains_errors pki env" by (simp add: test_sign_empty_domains_errors_def tests)
  show "test_sign_wildcard_domain pki env" by (simp add: test_sign_wildcard_domain_def tests)
  show "test_sign_multiple_sans pki env" by (simp add: test_sign_multiple_sans_def tests)
  show "test_sign_localhost pki env" by (simp add: test_sign_localhost_def tests)
  show "test_save_creates_cert_and_key_files pki env dir" by (simp add: test_save_creates_cert_and_key_files_def tests)
  show "test_load_after_save_can_sign pki env dir" by (simp add: test_load_after_save_can_sign_def tests)
  show "test_load_preserves_cert_pem_content pki env dir" by (simp add: test_load_preserves_cert_pem_content_def tests)
  show "test_load_nonexistent_dir_returns_error pki" by (simp add: test_load_nonexistent_dir_returns_error_def tests ca_load_def)
  show "test_load_or_generate_creates_files_when_absent pki env dir" by (simp add: test_load_or_generate_creates_files_when_absent_def tests)
  show "test_load_or_generate_reuses_without_regenerating pki env dir" by (simp add: test_load_or_generate_reuses_without_regenerating_def tests)
  show "test_load_or_generate_can_sign_after_reload pki env dir" by (simp add: test_load_or_generate_can_sign_after_reload_def tests)
qed

lemma resolver_ca_tests:
  assumes "pki_works pki env"
  shows "test_invalidate_removes_exact_domain_from_certs_cache pki env" "test_sign_domain_returns_cert_and_caches_it pki env"
    "test_sign_domain_caches_cert_on_repeated_calls pki env"
proof -
  from assms obtain pem ca where g: "ca_generate pki env = Inr (pem, ca)"
    and s: "\<And>i ds. ds \<noteq> [] \<Longrightarrow> \<exists>cert. ca_sign pki i ca ds = Inr cert" by (rule pki_worksE) blast
  have m: "make_resolver_with_ca pki env = Some (domain_resolver_new (Some ca), app_state_new False)"
    by (simp add: make_resolver_with_ca_def make_resolver_def g)
  have sign: "\<exists>cert. resolver_sign pki i ca [d] = Some cert" for i d
    using s [of "[d]" i] by (auto simp: resolver_sign_def)
  obtain c0 c1 where c: "resolver_sign pki 0 ca [''api.local''] = Some c0" "resolver_sign pki (Suc 0) ca [''api.local''] = Some c1"
    using sign by metis
  have rule: "inner_resolve (inner_add (test_rule_https ''api.local'' 3000) inner_new) ''api.local'' =
      Some (test_rule_https ''api.local'' 3000)" by code_simp
  note defs = m c rule Let_def sign_domain_def domain_resolver_new_def app_state_new_def
  show "test_sign_domain_returns_cert_and_caches_it pki env" "test_sign_domain_caches_cert_on_repeated_calls pki env"
    by (simp_all add: test_sign_domain_returns_cert_and_caches_it_def test_sign_domain_caches_cert_on_repeated_calls_def defs)
  have "domain (test_rule_https ''api.local'' 3000) = ''api.local''" by (simp add: test_rule_https_def dns_rule_new_def)
  then show "test_invalidate_removes_exact_domain_from_certs_cache pki env"
    by (simp add: test_invalidate_removes_exact_domain_from_certs_cache_def defs store_add_def resolve_domain_def store_resolve_def
      invalidate_def)
qed

end
