(* ===== verification/Propagation.thy ===== *)
theory Propagation
  imports Concurrent Fairness
begin

text \<open>
  Changes of the rules as liveness (core/src/ipc/handler.rs, core/src/runner.rs,
  core/src/dns/sys/mod.rs): once no further request comes, the events on their way reach the watch
  task and the task of the system's DNS configuration, and the cache, the file and the system
  agree with the rules.
\<close>

section \<open>What is on its way\<close>

fun mgr_rest :: "mgr_phase \<Rightarrow> nat" where
  "mgr_rest MgrInit = 2"
| "mgr_rest (MgrSubscribed q) = Suc (length q)"
| "mgr_rest (MgrLoop q) = length q"
| "mgr_rest (MgrEnded e) = 0"

text \<open>An event of a connection has two receivers, one of the watch task or the manager has one.\<close>

definition pend :: "('ca, 'cert, 'd, 'w) system \<Rightarrow> nat" where
  "pend s = sum_list (map (\<lambda>(r, es). Suc (2 * length es)) (y_tasks s)) + length (d_queue (y_daemon s)) + mgr_rest (y_mgr s)"

lemma pend_0: "pend s = 0 \<longleftrightarrow> y_tasks s = [] \<and> d_queue (y_daemon s) = [] \<and> mgr_rest (y_mgr s) = 0"
  by (cases "y_tasks s") (auto simp: pend_def split: prod.splits)

lemma mgr_rest_0: "mgr_rest ph = 0 \<longleftrightarrow> ph = MgrLoop [] \<or> mgr_ended ph"
  by (cases ph) simp_all

lemma mgr_rest_post: "mgr_rest (mgr_post es ph) \<le> mgr_rest ph + length es"
  by (cases ph) simp_all

lemma mgr_rest_wake: "mgr_wake ap rv st q w = (ph, w') \<Longrightarrow> mgr_rest ph \<le> length q"
  by (auto simp: mgr_wake_def split: if_splits list.splits prod.splits sum.splits)

lemma mgr_rest_first: "mgr_first_apply ap st q w = (ph, w') \<Longrightarrow> mgr_rest ph \<le> length q"
  by (auto simp: mgr_first_apply_def split: prod.splits sum.splits)

lemma watch_queue_length: "length (d_queue (watch_step sto d)) \<le> length (d_queue d)"
  by (simp add: watch_step_def split: list.split)

text \<open>A step that is no new request adds nothing, and removes something if any of the queues gets shorter.\<close>

definition shorter :: "('ca, 'cert, 'd, 'w) system \<Rightarrow> ('ca, 'cert, 'd, 'w) system \<Rightarrow> bool" where
  "shorter s t = (length (y_tasks t) < length (y_tasks s) \<or> length (d_queue (y_daemon t)) < length (d_queue (y_daemon s)) \<or>
     mgr_rest (y_mgr t) < mgr_rest (y_mgr s))"

lemma quiet_step:
  assumes "sys_step ap rv sto sign s t" "length (y_tasks t) \<le> length (y_tasks s)" "\<not> token (y_app t)"
  shows "pend t \<le> pend s \<and> (shorter s t \<longrightarrow> pend t < pend s)"
  using assms(1)
proof cases
  case (req_write r)
  with assms(2) show ?thesis by (simp add: write_store_def)
next
  case (req_send ts r es us)
  with mgr_rest_post [of es "y_mgr s"] have "pend t < pend s" by (simp add: pend_def send_events_def)
  then show ?thesis by simp
next
  case (own x)
  have "length (d_queue (daemon_exec sto sign x (y_daemon s))) \<le> length (d_queue (y_daemon s))"
    using own own_in_flight [of x sto sign "y_daemon s"] watch_queue_length [of sto "y_daemon s"] by (cases "x = Watch") simp_all
  with own show ?thesis by (auto simp: pend_def shorter_def)
next
  case (mgr_apply q ph w)
  with mgr_rest_first [OF mgr_apply(4)] show ?thesis by (auto simp: pend_def shorter_def)
next
  case (mgr_turn q ph w)
  with mgr_rest_wake [OF mgr_turn(4)] show ?thesis by (auto simp: pend_def shorter_def)
qed (use assms(3) in \<open>auto simp: pend_def shorter_def send_events_def\<close>)

section \<open>Fair runs without new requests\<close>

text \<open>
  The daemon goes on by calm steps, and what stays possible happens: a connection that has written
  the store sends its events, the watch task and the manager's task receive.
\<close>

definition serving_run ::
    "(string list \<Rightarrow> 'w \<Rightarrow> 'w outcome) \<Rightarrow> ('w \<Rightarrow> 'w outcome) \<Rightarrow> 'd confy_store \<Rightarrow> ('ca, 'cert) signer \<Rightarrow>
     (nat \<Rightarrow> ('ca, 'cert, 'd, 'w) system) \<Rightarrow> bool" where
  "serving_run ap rv sto sign r =
     ((\<forall>i. calm_sys_step ap rv sto sign (r i) (r (Suc i)) \<or> r (Suc i) = r i) \<and>
      weakly_fair (\<lambda>s. 0 < length (y_tasks s)) (\<lambda>s t. length (y_tasks t) < length (y_tasks s)) r \<and>
      weakly_fair (\<lambda>s. 0 < length (d_queue (y_daemon s))) (\<lambda>s t. length (d_queue (y_daemon t)) < length (d_queue (y_daemon s))) r \<and>
      weakly_fair (\<lambda>s. 0 < mgr_rest (y_mgr s)) (\<lambda>s t. mgr_rest (y_mgr t) < mgr_rest (y_mgr s)) r)"

definition quiet_from :: "nat \<Rightarrow> (nat \<Rightarrow> ('ca, 'cert, 'd, 'w) system) \<Rightarrow> bool" where
  "quiet_from i r = (\<forall>j\<ge>i. length (y_tasks (r (Suc j))) \<le> length (y_tasks (r j)) \<and> \<not> token (y_app (r j)))"

text \<open>
  Weak fairness of one queue makes the total fall, if the total never grows and falls whenever this
  queue gets shorter.
\<close>

lemma never_grows:
  fixes m :: "'s \<Rightarrow> nat"
  assumes "\<And>j. i \<le> j \<Longrightarrow> m (r (Suc j)) \<le> m (r j)" "i \<le> j"
  shows "m (r j) \<le> m (r i)"
  using assms(2) by (induction j rule: dec_induct) (auto intro: assms(1) order_trans)

lemma shorter_less:
  fixes m f :: "'s \<Rightarrow> nat"
  assumes grow: "\<And>j. i \<le> j \<Longrightarrow> m (r (Suc j)) \<le> m (r j)"
    and fall: "\<And>j. i \<le> j \<Longrightarrow> f (r (Suc j)) < f (r j) \<Longrightarrow> m (r (Suc j)) < m (r j)"
    and "i \<le> j" "f (r j) < f (r i)"
  shows "m (r j) < m (r i)"
  using assms(3,4)
proof (induction j rule: dec_induct)
  case (step n)
  show ?case
  proof (cases "f (r n) < f (r i)")
    case True
    with step grow [of n] show ?thesis by simp
  next
    case False
    with step have "f (r (Suc n)) < f (r n)" by simp
    with fall [of n] never_grows [of i m r n] grow step(1) show ?thesis by (metis less_le_trans)
  qed
qed simp

lemma fair_queue:
  fixes m f :: "'s \<Rightarrow> nat"
  assumes "weakly_fair (\<lambda>s. 0 < f s) (\<lambda>s t. f t < f s) r" "0 < f (r i)"
    and grow: "\<And>j. i \<le> j \<Longrightarrow> m (r (Suc j)) \<le> m (r j)"
    and fall: "\<And>j. i \<le> j \<Longrightarrow> f (r (Suc j)) < f (r j) \<Longrightarrow> m (r (Suc j)) < m (r j)"
  shows "\<exists>j\<ge>i. m (r j) < m (r i)"
proof (rule weakly_fairD [OF assms(1)])
  show "m (r j) < m (r i)" if "i \<le> j" "\<not> 0 < f (r j)" for j
    using shorter_less [of i m r f j] grow fall that assms(2) by simp
  show "m (r (Suc j)) < m (r i)" if "i \<le> j" "f (r (Suc j)) < f (r j)" for j
    using never_grows [of i m r j] grow fall that by (metis less_le_trans)
qed

lemma serving_step:
  assumes "serving_run ap rv sto sign r" "quiet_from i r" "i \<le> j"
  shows "pend (r (Suc j)) \<le> pend (r j)" "shorter (r j) (r (Suc j)) \<Longrightarrow> pend (r (Suc j)) < pend (r j)"
proof -
  have "sys_step ap rv sto sign (r j) (r (Suc j)) \<or> r (Suc j) = r j"
    using assms(1) by (auto simp: serving_run_def calm_sys_step_def)
  moreover have "length (y_tasks (r (Suc j))) \<le> length (y_tasks (r j))" "\<not> token (y_app (r (Suc j)))"
    using assms(2,3) by (simp_all add: quiet_from_def)
  ultimately show "pend (r (Suc j)) \<le> pend (r j)" "shorter (r j) (r (Suc j)) \<Longrightarrow> pend (r (Suc j)) < pend (r j)"
    using quiet_step [of ap rv sto sign "r j" "r (Suc j)"] by (auto simp: shorter_def)
qed

lemma quiet_later: "quiet_from i r \<Longrightarrow> i \<le> j \<Longrightarrow> quiet_from j r"
  by (simp add: quiet_from_def)

lemma serving_progress:
  assumes "serving_run ap rv sto sign r" "quiet_from i r" "0 < pend (r i)"
  shows "\<exists>j\<ge>i. pend (r j) < pend (r i)"
proof -
  note step = serving_step [OF assms(1,2)] and wf = assms(1) [unfolded serving_run_def]
  have go: "\<exists>j\<ge>i. pend (r j) < pend (r i)"
    if "weakly_fair (\<lambda>s. 0 < f s) (\<lambda>s t. f t < f s) r" "0 < f (r i)" "\<And>s t. f t < f s \<Longrightarrow> shorter s t" for f :: "_ \<Rightarrow> nat"
    using that(1,2) by (rule fair_queue) (use step that(3) in blast)+
  from assms(3) consider "0 < length (y_tasks (r i))" | "0 < length (d_queue (y_daemon (r i)))" | "0 < mgr_rest (y_mgr (r i))"
    using pend_0 [of "r i"] by auto
  then show ?thesis
  proof cases
    case 1
    show ?thesis by (rule go [of "\<lambda>s. length (y_tasks s)", OF _ 1]) (use wf in blast, simp add: shorter_def)
  next
    case 2
    show ?thesis by (rule go [of "\<lambda>s. length (d_queue (y_daemon s))", OF _ 2]) (use wf in blast, simp add: shorter_def)
  next
    case 3
    show ?thesis by (rule go [of "\<lambda>s. mgr_rest (y_mgr s)", OF _ 3]) (use wf in blast, simp add: shorter_def)
  qed
qed

lemma serving_settles:
  assumes "serving_run ap rv sto sign r" "quiet_from i r"
  shows "\<exists>j\<ge>i. \<forall>k\<ge>j. pend (r k) = 0"
  using assms(2)
proof (induction "pend (r i)" arbitrary: i rule: less_induct)
  case less
  show ?case
  proof (cases "pend (r i) = 0")
    case True
    with never_grows [of i pend r] serving_step(1) [OF assms(1) less.prems] show ?thesis by (metis le_zero_eq order_refl)
  next
    case False
    with serving_progress [OF assms(1) less.prems] obtain j where j: "i \<le> j" "pend (r j) < pend (r i)" by auto
    with less.hyps [OF j(2) quiet_later [OF less.prems j(1)]] show ?thesis by (meson order_trans)
  qed
qed

lemma serving_reach:
  assumes "serving_run ap rv sto sign r"
  shows "(calm_sys_step ap rv sto sign)\<^sup>*\<^sup>* (r 0) (r k)"
proof (induction k)
  case (Suc k)
  have "calm_sys_step ap rv sto sign (r k) (r (Suc k)) \<or> r (Suc k) = r k" using assms by (simp add: serving_run_def)
  with Suc show ?case by (metis rtranclp.rtrancl_into_rtrancl)
qed simp

section \<open>The system's configuration\<close>

lemma serving_reach_sys: "serving_run ap rv sto sign r \<Longrightarrow> (sys_step ap rv sto sign)\<^sup>*\<^sup>* (r 0) (r k)"
  using serving_reach by (rule rtranclp_mono [THEN predicate2D, rotated]) (auto simp: calm_sys_step_def)

text \<open>For every manager that keeps its contract.\<close>

context system_dns_manager
begin

lemma eventually_configured:
  assumes "serving_run ap rv sto sign r" "quiet_from i r" "world_inv r0 (r 0)" "\<And>ds. safe ds r0"
  shows "\<exists>j\<ge>i. \<forall>k\<ge>j. pend (r k) = 0 \<and> rest (y_world (r k)) = r0 \<and>
    (mgr_ended (y_mgr (r k)) \<or> config (y_world (r k)) = image (snapshot_all_domains (y_app (r k))))"
proof -
  from serving_settles [OF assms(1,2)] obtain j where j: "i \<le> j" "\<And>k. j \<le> k \<Longrightarrow> pend (r k) = 0" by blast
  have "rest (y_world (r k)) = r0 \<and> (mgr_ended (y_mgr (r k)) \<or> config (y_world (r k)) = image (snapshot_all_domains (y_app (r k))))"
    if "j \<le> k" for k
  proof -
    have w: "world_inv r0 (r k)" using serving_reach_sys [OF assms(1)] assms(3,4) by (rule world_inv_steps)
    have "settled (r k)" if "\<not> mgr_ended (y_mgr (r k))"
      using that j \<open>j \<le> k\<close> assms(2) by (auto simp: settled_def pend_0 mgr_rest_0 quiet_from_def)
    with w show ?thesis by (auto simp: world_inv_def)
  qed
  with j show ?thesis by blast
qed

end

section \<open>Property\<close>


text \<open>
  The same for macOS, where no file of the user is in the resolver directory.
\<close>

theorem changes_take_effect_macos:
  assumes "config_ok lod disk" "macos_rest dir = (\<lambda>n. None)"
    and "serving_run (macos_apply (as_root h)) (macos_revert (as_root h)) sto sign r"
    and "r 0 = system_start lod sign installed ca disk dir" "quiet_from i r"
  shows "\<exists>j\<ge>i. \<forall>k\<ge>j. macos_rest (y_world (r k)) = (\<lambda>n. None) \<and>
    (mgr_ended (y_mgr (r k)) \<or> macos_config (y_world (r k)) = macos_image (snapshot_all_domains (y_app (r k))))"
proof -
  have "macos.world_inv (\<lambda>n. None) (r 0)" unfolding assms(4)
    using assms(1,2) by (simp add: macos.world_inv_def events_inv_start settled_def) (simp add: system_start_def)
  moreover have "macos_safe ds (\<lambda>n. None)" for ds by (simp add: macos_safe_def list_all_iff)
  ultimately show ?thesis using macos.eventually_configured [OF assms(3,5), of "\<lambda>n. None"] by blast
qed

text \<open>A calm run that has nothing left on its way and stays so is fair.\<close>

lemma settled_run_serves:
  assumes "(calm_sys_step ap rv sto sign)\<^sup>*\<^sup>* s t" "pend t = 0" "\<not> token (y_app t)"
  obtains r n where "serving_run ap rv sto sign r" "r 0 = s" "\<And>k. n \<le> k \<Longrightarrow> r k = t" "quiet_from n r"
proof -
  from assms(1) obtain n where "(calm_sys_step ap rv sto sign ^^ n) s t" by (auto simp: rtranclp_power)
  then obtain f where f: "f 0 = s" "f n = t" "\<And>i. i < n \<Longrightarrow> calm_sys_step ap rv sto sign (f i) (f (Suc i))"
    by (auto simp: relpowp_fun_conv)
  let ?r = "\<lambda>i. f (min i n)"
  have "weakly_fair en tk ?r" if "\<not> en t" for en tk using f(2) that by (rule padded_fair)
  moreover have "calm_sys_step ap rv sto sign (?r i) (?r (Suc i)) \<or> ?r (Suc i) = ?r i" for i
    using f(3) [of i] by (cases "i < n") (simp_all add: min_def)
  ultimately have "serving_run ap rv sto sign ?r" using assms(2) by (simp add: serving_run_def pend_0)
  moreover have "?r k = t" if "n \<le> k" for k using f(2) that by (simp add: min_def)
  moreover have "quiet_from n ?r" using assms(3) f(2) by (simp add: quiet_from_def min_def)
  ultimately show ?thesis using that [of ?r n] f(1) by simp
qed

section \<open>A concrete run\<close>

text \<open>A daemon that starts with a rule and gets a request to replace it.\<close>

lemma demo_daemon:
  "d_queue (y_daemon demo_start) = []" "d_inflight (y_daemon demo_start) = []" "d_watching (y_daemon demo_start)"
  "d_disk (y_daemon demo_start) = Some \<lparr>rules = [local_rule ''a.io'' 1 False]\<rparr>"
  by (simp_all add: demo_start_def system_start_def daemon_start_def load_rules_def Let_def)

lemma demo_replaces:
  "\<exists>t. (calm_sys_step (systemd_apply all_ok) (systemd_revert all_ok) sample_sto sample_sign)\<^sup>*\<^sup>* demo_start t \<and>
     pend t = 0 \<and> \<not> token (y_app t) \<and> \<not> mgr_ended (y_mgr t) \<and>
     store (y_app t) = inner_add (local_rule ''a.io'' 2 False) (inner_add (local_rule ''a.io'' 1 False) inner_new)"
proof -
  let ?step = "calm_sys_step (systemd_apply all_ok) (systemd_revert all_ok) sample_sto sample_sign"
  let ?r2 = "local_rule ''a.io'' 2 False"
  let ?s1 = "demo_start\<lparr>y_world := Map.empty, y_mgr := MgrSubscribed []\<rparr>"
  let ?s3 = "write_store (add_a 2) demo_settled"
  let ?s4 = "(send_events False [RuleAdded ?r2] ?s3)\<lparr>y_tasks := []\<rparr>"
  let ?s5 = "?s4\<lparr>y_daemon := daemon_exec sample_sto sample_sign Watch (y_daemon ?s4)\<rparr>"
  let ?w = "snd (systemd_apply all_ok (snapshot_all_domains (y_app ?s5)) (y_world ?s5))"
  let ?s6 = "?s5\<lparr>y_world := ?w, y_mgr := MgrLoop []\<rparr>"
  note eval = demo_phases demo_daemon demo_app demo_settled_def write_store_def send_events_def handle_add_a task_events_def
    channel_capacity_def no_overlap_no_wildcards inner_add_def inner_new_def is_wildcard_def watch_step_def
  have rv: "snd (systemd_revert all_ok Map.empty) = Map.empty" by (simp add: systemd_revert_def systemd_reload_def)
  have "?step demo_start ?s1" unfolding calm_sys_step_def
    using sys_step.mgr_subscribe [of demo_start "systemd_apply all_ok" "systemd_revert all_ok" sample_sto sample_sign]
    by (simp add: demo_phases rv) (simp add: eval)
  moreover have "?step ?s1 demo_settled" unfolding calm_sys_step_def
    using sys_step.mgr_apply [of ?s1 "[]" "systemd_apply all_ok" "MgrLoop []" "[drop_in_path \<mapsto> systemd_content [''a.io'']]"
        "systemd_revert all_ok" sample_sto sample_sign]
    by (simp add: demo_phases demo_domains mgr_first_apply_def systemd_apply_def systemd_reload_def all_ok_def demo_settled_def)
      (simp add: eval)
  moreover have "?step demo_settled ?s3"
    unfolding calm_sys_step_def by (intro conjI sys_step.req_write) (simp_all add: eval del: handle.simps)
  moreover have "?step ?s3 ?s4" unfolding calm_sys_step_def
    using sys_step.req_send [of ?s3 "[]" "add_a 2" "[RuleAdded ?r2]" "[]"] by (simp add: eval del: handle.simps)
  moreover have "?step ?s4 ?s5"
    unfolding calm_sys_step_def by (intro conjI sys_step.own) (simp_all add: eval del: handle.simps)
  moreover have "?step ?s5 ?s6"
    unfolding calm_sys_step_def
  proof (intro conjI sys_step.mgr_turn)
    show "y_mgr ?s5 = MgrLoop [RuleAdded ?r2]" by (simp add: eval del: handle.simps)
    show "mgr_wake (systemd_apply all_ok) (systemd_revert all_ok) (y_app ?s5) [RuleAdded ?r2] (y_world ?s5) = (MgrLoop [], ?w)"
      by (simp add: mgr_wake_def systemd_apply_def systemd_reload_def all_ok_def) (simp add: eval del: handle.simps)
  qed (simp_all add: eval del: handle.simps)
  ultimately have "?step\<^sup>*\<^sup>* demo_start ?s6" by (meson converse_rtranclp_into_rtranclp rtranclp.rtrancl_refl)
  moreover have "pend ?s6 = 0 \<and> \<not> token (y_app ?s6) \<and> \<not> mgr_ended (y_mgr ?s6) \<and>
      store (y_app ?s6) = inner_add ?r2 (inner_add (local_rule ''a.io'' 1 False) inner_new)"
    by (simp add: pend_0) (simp add: eval del: handle.simps)
  ultimately show ?thesis by blast
qed


end
