(* ===== verification/Spec2Isabelle.thy ===== *)
theory Spec2Isabelle
  imports Prelude Regex Domain Net Rule Store RuleStore State Ipc Resolver DnsServer Proxy SysDns Daemon Ca Trust CertCmd Run Cli DaemonCmd RunCmd Entry Runner Concurrent Fairness Tls Conformance Propagation
begin

text \<open>
  SideDNS: a verification development of the local DNS and proxy daemon and of its command line.

  \<^bold>\<open>The program.\<close> A daemon keeps routing rules from domain names to local sockets. A DNS server
  answers queries for those names with the address of a reverse proxy and forwards all other
  queries; the proxy sends the requests for a name to the target of its rule, over TLS with
  certificates of a local authority if the rule asks for it; a task tells the system's resolver
  which names to ask the DNS server for; another saves the persistent rules. The command line
  talks to the daemon over a local socket, manages the certificate authority and its trust
  stores, and can run a program with a rule that lasts as long as the program.

  \<^bold>\<open>The theories\<close>, in the order of their imports, with the sources they model:

  \<^item> \<open>Prelude\<close>: machine integers, the operations of Rust strings and vectors in use, hash maps
    as association lists with distinct keys, and the fact collections.
  \<^item> \<open>Regex\<close>, \<open>Domain\<close>: the pattern of \<^verbatim>\<open>core/src/config.rs\<close> with an executable matcher,
    \<^verbatim>\<open>validate_domain\<close> of \<^verbatim>\<open>core/src/lib.rs\<close> and the argument parsers of \<^verbatim>\<open>cli/src/cli.rs\<close>. On
    ASCII names validation equals a direct grammar of host names; which bytes an accepted name
    can have; closure under lower case.
  \<^item> \<open>Net\<close>, \<open>Rule\<close>: addresses and their text; the rule, its display and which names it matches
    (\<^verbatim>\<open>core/src/rule.rs\<close>).
  \<^item> \<open>Store\<close>: \<^verbatim>\<open>InnerRuleStore\<close> of \<^verbatim>\<open>core/src/store.rs\<close>, two layers of exact and wildcard rules,
    with the locale \<open>rule_layer\<close> for what a layer promises; the priority of resolution.
  \<^item> \<open>RuleStore\<close>: the concurrent \<^verbatim>\<open>RuleStore\<close>: the \<^verbatim>\<open>rcu\<close> loop as a step relation of any number of
    writers, which is linearizable and always ends; refinement of two finite maps.
  \<^item> \<open>State\<close>, \<open>Ipc\<close>: \<^verbatim>\<open>AppState\<close>, the messages, persistence (\<^verbatim>\<open>core/src/state.rs\<close>); the request
    handler, the server and the client (\<^verbatim>\<open>core/src/ipc\<close>). The handler refines a specification
    over two maps; a request sent over the wire gets the handler's answer, and is handled at
    most once whatever fails on either side of the connection; the events rebuild the rules;
    saving and loading.
  \<^item> \<open>Resolver\<close>: the caches in front of the store and the authority (\<^verbatim>\<open>core/src/dns/resolver.rs\<close>),
    with the locale \<open>memo_cache\<close>; certificates only for the name asked for.
  \<^item> \<open>DnsServer\<close>, \<open>Proxy\<close>: the DNS handler (\<^verbatim>\<open>core/src/dns/server.rs\<close>) and the reverse proxy
    (\<^verbatim>\<open>core/src/proxy/server.rs\<close>): local answers, forwarding, routing, headers, redirects.
  \<^item> \<open>SysDns\<close>: the system's configuration on four platforms and the task that keeps it in step
    (\<^verbatim>\<open>core/src/dns/sys\<close>), with the locale \<open>system_dns_manager\<close>; a run that ends in order leaves
    the system as it was.
  \<^item> \<open>Daemon\<close>: start-up, the watch task and shutdown (\<^verbatim>\<open>core/src/runner.rs\<close>) and runs that
    interleave them with requests and lookups; cache and file stay in step with the rules.
  \<^item> \<open>Runner\<close>, \<open>Concurrent\<close>, \<open>Fairness\<close>: the whole daemon (\<^verbatim>\<open>core/src/runner.rs\<close>): its five tasks, the main task
    and the parallel connections as a step relation in which any enabled step may come next. The
    invariant of the system's configuration is proved once from the contract of managers and
    used for systemd and macOS; shutdown always can complete, does so in every fair run, and
    leaves nothing behind; cache and file stay in step while connections are between their
    write and their event.
  \<^item> \<open>Propagation\<close>: changes of the rules as liveness: in every fair run, once no further request
    comes, the cache, the file and the system's configuration agree with the rules for good.
  \<^item> \<open>Ca\<close>, \<open>Trust\<close>: the certificate authority (\<^verbatim>\<open>core/src/certs/ca.rs\<close>) and the trust stores
    (\<^verbatim>\<open>core/src/certs/trust\<close>), with the locale \<open>trust_store\<close>: the authority is generated once;
    stores write only their own files; installing is seen and undone by uninstalling. The stores
    are modelled for every platform.
  \<^item> \<open>Tls\<close>: the daemon with the authority it loads at its start: every certificate served is for
    the name asked for, in every interleaving, and the certificates follow the rules. Signing is
    randomised: each call has a draw of its own.
  \<^item> \<open>CertCmd\<close>, \<open>Cli\<close>, \<open>DaemonCmd\<close>, \<open>Run\<close>, \<open>RunCmd\<close>: the commands (\<^verbatim>\<open>cli/src/commands\<close>,
    \<^verbatim>\<open>cli/src/daemon.rs\<close>, \<^verbatim>\<open>cli/src/run.rs\<close>) and their dispatch (\<^verbatim>\<open>cli/src/lib.rs\<close>): certificate
    commands, requests to the daemon and the rule table, starting and stopping, waiting for
    ports and finding listeners, and the life of an ephemeral rule. Requests and responses fit
    together.
  \<^item> \<open>Entry\<close>: paths (\<^verbatim>\<open>core/src/config.rs\<close>), logging (\<^verbatim>\<open>core/src/logging.rs\<close>) and \<^verbatim>\<open>main\<close>: exit
    codes, what an unprivileged process can do, one log subscriber per process.
  \<^item> \<open>Conformance\<close>: the program's own unit tests (\<^verbatim>\<open>core/tests\<close> and the test modules of the
    resolver, the proxy and the authority) as definitions that evaluate to True on the model.
  \<^item> This theory: a rule takes effect in DNS and proxy together, over HTTPS too, and from the
    add command on: the command line, the wire, the handler, the caches and the servers composed.

  \<^bold>\<open>How code becomes definitions.\<close> A struct is a record, an enum a datatype, a method one
  function on the record; \<^verbatim>\<open>Result\<close> is a sum, \<^verbatim>\<open>Option\<close> an option; ports, octets and timeouts are
  words of their width, strings are bytes in UTF-8. A hash map is iterated in the order of its
  association list; no statement depends on which order that is. Tasks around a \<^verbatim>\<open>select!\<close> are functions of the
  sequence of what the \<^verbatim>\<open>select!\<close> sees, with the priorities of the biased ones, and \<open>Runner\<close>
  interleaves the tasks. The rule store is used as atomic steps in the other components, which
  \<open>RuleStore\<close> justifies. \<open>ipc_handler\<close> is the trait of the IPC server, interpreted on the handler
  alone and on the whole daemon.

  \<^bold>\<open>Parameters.\<close> Code of other packages is a parameter with its promises as named hypotheses: the
  JSON codec and line reader (\<open>wire\<close>), confy (\<open>confy_ok\<close>), the DNS library and the upstream
  resolver (\<open>dns_env\<close>), backends of the proxy, key generation and signing (\<open>pki\<close>,
  \<open>pem_round_trip\<close>), digests (\<open>digests\<close>), external programs (\<open>certutil_works\<close>), the service
  manager and the daemon library (\<open>dm\<close>, \<open>process_env\<close>), argument parsing by clap, the process
  table, the clock, and which file operations the system allows (\<open>os\<close>).

  \<^bold>\<open>Bounds.\<close> No fuel is used: every loop is structural over its inputs or has a termination
  proof (the wait for a port by the time left, the search for descendants by a lexicographic
  measure that holds for every process table). The polls of the daemon are ten, as in the code.
  The statements about runs of the daemon assume calm runs: the watch task keeps running and is
  never further behind than the capacity of its channel, no layer has overlapping wildcards, and
  a lookup is not interleaved with other steps. What happens otherwise is shown by the
  theorems about stale entries and lost rules.

  \<^bold>\<open>Not modelled.\<close> The parsing of arguments by clap beyond the value parsers; log lines, except
  where a command prints through them; the build of HTTP and TLS connections and the parsing of
  messages, which are libraries; of the tests, the assertions about the certificate library
  alone, those with threads and those of the transport with a handler of their own. The platform of the command line's clean-up is
  Linux; the stores, the system's DNS configuration and the socket are modelled for every
  platform. In \<open>Runner\<close> a server's task may end at any time and lookups stay possible after it,
  which only adds runs; a failure to register the signal handler, which ends the process before
  the main task waits, is left out.
\<close>

section \<open>The daemon behind its socket\<close>

text \<open>
  The handler of the daemon's IPC server, on the state of the whole daemon: the request is
  handled, and its events go to the watch task's queue.
\<close>

definition daemon_handler :: "('ca, 'cert, 'd) daemon handler" where
  "daemon_handler req d = (fst (handle req (d_app d)), daemon_request req d)"

interpretation served: ipc_handler daemon_handler "\<lambda>d. app_inv (d_app d)"
  by unfold_locales (simp add: daemon_handler_def daemon_request_def handle_inv)

text \<open>The watch task catches up with a queue within its capacity.\<close>

lemma watch_catches_up:
  assumes "daemon_inv d" "length (d_queue d) \<le> channel_capacity"
  shows "d_queue ((watch_step sto ^^ length (d_queue d)) d) = [] \<and> d_app ((watch_step sto ^^ length (d_queue d)) d) = d_app d \<and>
    daemon_inv ((watch_step sto ^^ length (d_queue d)) d)"
  using assms
proof (induction "d_queue d" arbitrary: d)
  case (Cons e es)
  have q: "d_queue d = e # es" by (simp add: Cons.hyps(2) [symmetric])
  then have d: "d_queue (watch_step sto d) = es" "d_app (watch_step sto d) = d_app d"
    using Cons.prems by (simp_all add: watch_step_def daemon_inv_def)
  from Cons.hyps(1) [OF d(1) [symmetric] daemon_inv_watch [OF Cons.prems]] Cons.prems(2) q d(1,2) show ?case
    by (simp only: q length_Cons funpow_Suc_right o_apply d)
qed simp

text \<open>A name with a rule, once no event is pending, as DNS and proxy see it.\<close>

lemma rule_served:
  assumes "daemon_inv d" "d_queue d = []" "inner_resolve (store (d_app d)) n = Some rule"
    and "query_domain q = n" "query_type q = RT_A" "name_from_ascii env (n @ ''.'') = Inr name"
    and "send_response env (local_reply env q name) = Inr info"
    and "extract_host (req_headers req) = Some n" "\<not> https rule \<or> tls" "accepts be (proxy_target rule)"
    and "handshake be (proxy_target rule) = None" "respond be (proxy_target rule) (proxy_headers ip tls req) = Inr resp"
  shows "sent (fst (snd (handle_request env (store (d_app d)) q (d_res d)))) = [local_reply env q name] \<and>
    resp_answers (local_reply env q name) = [Local name 10 (RData_A (Ipv4Addr 127 0 0 42))] \<and>
    fst (service_handle_connection be (store (d_app d)) req ip tls (d_res d)) = Inr (Backend resp) \<and>
    forwarded (fst (snd (service_handle_connection be (store (d_app d)) req ip tls (d_res d)))) =
      Some (proxy_target rule, proxy_headers ip tls req)"
proof -
  have coh: "rules.coherent (store (d_app d)) [] (d_res d)"
    using assms(1,2) by (simp add: daemon_inv_def pending_rules_def List.map_filter_def)
  have "intercepted (store (d_app d)) q" using assms(3-5) by (simp add: intercepted_def)
  with handle_request_local [OF coh this, of env name info] service_forwards [OF coh assms(8,3,9-12)]
    assms(4-7) show ?thesis
    by (simp add: local_reply_def)
qed

text \<open>The add command, from the arguments to the daemon behind the wire.\<close>

lemma main_add:
  assumes "pe_runtime pe = Inr ()" "length args \<noteq> 1" "pe_parse pe args = Inr (CmdAdd a)"
    and "cli_validate_domain_resolve given = Inr (aa_domain a)"
    and "dm_probe (ce_dm env) (w_daemon w)" "dm_client (ce_dm env) = send wr io_fine (Some (server_peer wr daemon_handler io_fine))"
    and "req = Add (aa_domain a) (socket_addr_new (aa_ip a) (aa_port a)) (aa_https a)"
    and "carries_request wr req" "reads_lines wr [request_to_string wr req]"
    and "carries_response wr Ok" "reads_lines wr [response_to_string wr Ok]"
  shows "\<exists>line. main env pe args w = (Exited 0, w\<lparr>w_daemon := daemon_request req (w_daemon w)\<rparr>, [line])"
proof -
  have "fst (handle req (d_app (w_daemon w))) = Ok"
    using cli_resolve_name [OF assms(4)] by (simp add: assms(7) handler_defs store_method_defs)
  then have "send wr io_fine (Some (server_peer wr daemon_handler io_fine)) req (w_daemon w) = (Inr Ok, daemon_request req (w_daemon w))"
    using served.exchange [of wr req "w_daemon w"] assms(8-11) by (simp add: daemon_handler_def assms(7) del: handle.simps)
  then show ?thesis
    using assms(1-3,5-7)
    by (simp add: main_def parsed_def handle_daemon_start_def execute_from_command_line_def with_daemon_def
      ensure_running_def cmd_add_def on_daemon_def)
qed

text \<open>What the request leaves: the rule in force for its name, one event for the watch task.\<close>

lemma daemon_add:
  assumes "daemon_inv d" "no_overlap (store (d_app d))" "length (d_queue d) < channel_capacity"
    and "cli_validate_domain_resolve given = Inr n" "ephemeral_free (store (d_app d)) n"
    and "rule = dns_rule_new n tgt secure" "d' = daemon_request (Add n tgt secure) d"
  shows "daemon_inv d' \<and> length (d_queue d') \<le> channel_capacity \<and> inner_resolve (store (d_app d')) n = Some rule \<and>
    persistent (store (d_app d')) n = Some rule"
proof -
  note v = cli_resolve_name [OF assms(4)]
  have i: "store_inv (store (d_app d))" using assms(1) by (simp add: daemon_inv_def)
  have r: "\<not> is_wildcard rule" "domain rule = n" using v(3) by (simp_all add: assms(6) is_wildcard_def dns_rule_new_def)
  have h: "handle (Add n tgt secure) (d_app d) =
      (Ok, (d_app d)\<lparr>store := inner_add rule (store (d_app d)), events := events (d_app d) @ [RuleAdded rule]\<rparr>)"
    using v by (simp add: handler_defs store_method_defs assms(6))
  then have "store (d_app d') = inner_add rule (store (d_app d))" "length (d_queue d') = Suc (length (d_queue d))"
    by (simp_all add: assms(7) daemon_request_def task_events_def del: handle.simps)
  with daemon_inv_request [OF assms(1,2)] resolve_new_rule [OF i r(1)] r(2) assms(3,5,7) pers.layer_add [OF i, of rule]
  show ?thesis by simp
qed

section \<open>Properties across components\<close>

text \<open>
  C1. A rule takes effect everywhere. In every calm run of the daemon from a valid
  configuration, once the watch task has received all events, an A query for a name with a
  rule is answered with the proxy's address, and an HTTP request for that host (over TLS if the
  rule has HTTPS) is sent to that rule's target and answered with the backend's response.
\<close>

theorem rule_takes_effect:
  assumes "config_ok lod disk" "calm sto sign xs (daemon_start lod sign installed ca disk)"
    and "d = daemon_run sto sign xs (daemon_start lod sign installed ca disk)" "d_queue d = []"
    and "inner_resolve (store (d_app d)) n = Some rule"
    and "query_domain q = n" "query_type q = RT_A" "name_from_ascii env (n @ ''.'') = Inr name"
    and "send_response env (local_reply env q name) = Inr info"
    and "extract_host (req_headers req) = Some n" "\<not> https rule \<or> tls" "accepts be (proxy_target rule)"
    and "handshake be (proxy_target rule) = None" "respond be (proxy_target rule) (proxy_headers ip tls req) = Inr resp"
  shows "sent (fst (snd (handle_request env (store (d_app d)) q (d_res d)))) = [local_reply env q name] \<and>
    resp_answers (local_reply env q name) = [Local name 10 (RData_A (Ipv4Addr 127 0 0 42))] \<and>
    fst (service_handle_connection be (store (d_app d)) req ip tls (d_res d)) = Inr (Backend resp) \<and>
    forwarded (fst (snd (service_handle_connection be (store (d_app d)) req ip tls (d_res d)))) =
      Some (proxy_target rule, proxy_headers ip tls req)"
proof -
  have "daemon_inv d" using daemon_inv_run [OF daemon_inv_start [OF assms(1)] assms(2)] assms(3) by simp
  from rule_served [OF this assms(4-14)] show ?thesis .
qed

text \<open>A DNS library and a query for the examples.\<close>

abbreviation sample_dns :: "(unit, string, unit, nat) dns_env" where
  "sample_dns \<equiv> \<lparr>response_from_request = id, name_from_ascii = Inr, upstream_lookup = \<lambda>d q. LookupError ''down'',
     send_response = \<lambda>r. Inr 1, empty_info = 0\<rparr>"

abbreviation sample_query :: "unit request" where
  "sample_query \<equiv> \<lparr>query_name = ''A.IO.'', query_type = RT_A,
     req_header = \<lparr>message_type_response = False, authoritative = False, response_code = NoError, header_rest = ()\<rparr>\<rparr>"

lemma sample_query_domain: "query_domain sample_query = ''a.io''"
  by code_simp

lemma sample_request_host: "extract_host (req_headers (sample_request ''A.io:80'')) = Some ''a.io''"
  by code_simp

theorem rule_takes_effect_witness:
  "\<exists>(env :: (unit, string, unit, nat) dns_env) q d.
     d = daemon_run sample_sto sample_sign [Request (add_a 1), Watch, Lookup ''a.io'', Request (add_a 2), Watch] sample_daemon \<and>
     query_name q = ''A.IO.'' \<and>
     resp_answers (hd (sent (fst (snd (handle_request env (store (d_app d)) q (d_res d)))))) =
       [Local ''a.io.'' 10 (RData_A (Ipv4Addr 127 0 0 42))] \<and>
     forwarded (fst (snd (service_handle_connection sample_backend (store (d_app d)) (sample_request ''A.io:80'')
       (V4 ipv4_localhost) False (d_res d)))) =
       Some (SocketAddrV4 ipv4_localhost 2, proxy_headers (V4 ipv4_localhost) False (sample_request ''A.io:80''))"
proof -
  let ?xs = "[Request (add_a 1), Watch, Lookup ''a.io'', Request (add_a 2), Watch]"
  let ?d = "daemon_run sample_sto sample_sign ?xs sample_daemon"
  let ?env = sample_dns and ?q = sample_query
  let ?rule = "local_rule ''a.io'' 2 False"
  let ?resp = "\<lparr>status = 200, resp_rest = ''hello''\<rparr>"
  have cfg: "config_ok id (Some \<lparr>rules = []\<rparr>)" by (simp add: config_ok_def)
  have res: "inner_resolve (store (d_app ?d)) ''a.io'' = Some ?rule" using sample_run sample_resolve by simp
  have tgt: "proxy_target ?rule = SocketAddrV4 ipv4_localhost 2" by (simp add: proxy_target_def)
  note eff = rule_takes_effect [OF cfg sample_calm [unfolded sample_daemon_def] refl _ _ sample_query_domain _ _ _ sample_request_host,
      of ?rule ?env "''a.io.''" 1 False sample_backend "V4 ipv4_localhost" ?resp, folded sample_daemon_def]
  have "sent (fst (snd (handle_request ?env (store (d_app ?d)) ?q (d_res ?d)))) = [local_reply ?env ?q ''a.io.''] \<and>
    resp_answers (local_reply ?env ?q ''a.io.'') = [Local ''a.io.'' 10 (RData_A (Ipv4Addr 127 0 0 42))] \<and>
    forwarded (fst (snd (service_handle_connection sample_backend (store (d_app ?d)) (sample_request ''A.io:80'')
       (V4 ipv4_localhost) False (d_res ?d)))) =
      Some (SocketAddrV4 ipv4_localhost 2, proxy_headers (V4 ipv4_localhost) False (sample_request ''A.io:80''))"
    using eff sample_run res tgt by (simp add: sample_backend_def)
  then show ?thesis by (intro exI [of _ ?env] exI [of _ ?q] exI [of _ ?d]) simp
qed


definition add_a_args :: add_args where
  "add_a_args = \<lparr>aa_domain = ''a.io'', aa_ip = V4 ipv4_localhost, aa_port = 3000, aa_https = False\<rparr>"

text \<open>A command line whose daemon listens behind a wire.\<close>

abbreviation listening :: "wire \<Rightarrow> ((unit, string, dns_config option) daemon, unit, string, unit) cli_env" where
  "listening wr \<equiv> sample_cli False (sample_dm (send wr io_fine (Some (server_peer wr daemon_handler io_fine))))"

abbreviation sample_world :: "((unit, string, dns_config option) daemon, unit) world" where
  "sample_world \<equiv> \<lparr>w_daemon = sample_daemon, w_machine = debian_machine Map.empty\<rparr>"


text \<open>
  C9. HTTPS works as a whole. In every calm run of a daemon whose authority loaded, once the
  events are received, for a name whose rule has HTTPS: a TLS client that asks for it gets a
  certificate signed by that authority for exactly this name (if signing succeeds), a plain
  request is redirected to the same host and path over https without reaching the backend, and
  the request over TLS is sent to the rule's target.
\<close>

theorem https_takes_effect:
  assumes "config_ok lod disk" "calm sto (resolver_sign pki) xs (tls_daemon_start lod pki dir fs disk)"
    and "d = daemon_run sto (resolver_sign pki) xs (tls_daemon_start lod pki dir fs disk)" "d_queue d = []"
    and "ca_load pki dir fs = Inr ca" "inner_resolve (store (d_app d)) n = Some rule" "https rule"
    and "signed_by pki j ca (domain_params [n]) = Inr cert"
    and "extract_host (req_headers req) = Some n" "path_and_query req = Some pq" "list_all value_byte pq"
    and "accepts be (proxy_target rule)" "handshake be (proxy_target rule) = None"
    and "respond be (proxy_target rule) (proxy_headers ip True req) = Inr resp"
  shows "(\<exists>c k. fst (resolve_cert (resolver_sign pki j) (store (d_app d)) (Some n) (d_res d)) = Some c \<and>
      signed_by pki k ca (domain_params [n]) = Inr c) \<and>
    fst (service_handle_connection be (store (d_app d)) req ip False (d_res d)) = Inr (MovedPermanently (''https://'' @ n @ pq)) \<and>
    forwarded (fst (snd (service_handle_connection be (store (d_app d)) req ip False (d_res d)))) = None \<and>
    fst (service_handle_connection be (store (d_app d)) req ip True (d_res d)) = Inr (Backend resp) \<and>
    forwarded (fst (snd (service_handle_connection be (store (d_app d)) req ip True (d_res d)))) =
      Some (proxy_target rule, proxy_headers ip True req)"
proof -
  note coh = calm_tls(1) [OF assms(1-4)]
  have inv: "tls_inv (resolver_sign pki) (Some ca) (d_res d)"
    using calm_tls(2) [OF assms(1-4)] by (simp add: assms(5) daemon_ca_def)
  then have "cert_authority (d_res d) = Some ca" by (simp add: tls_inv_def)
  with assms(6-8) have "\<exists>c. fst (resolve_cert (resolver_sign pki j) (store (d_app d)) (Some n) (d_res d)) = Some c"
    by (simp add: resolve_cert_eq [OF coh] served_def resolver_sign_Some split: option.split)
  with resolve_cert_signed [OF inv] have "\<exists>c k. fst (resolve_cert (resolver_sign pki j) (store (d_app d)) (Some n) (d_res d)) = Some c \<and>
      signed_by pki k ca (domain_params [n]) = Inr c"
    by (fastforce simp: resolver_sign_Some)
  with service_redirects [OF coh assms(9,6,7,10,11), of be ip] service_forwards [OF coh assms(9,6) _ assms(12-14)]
  show ?thesis by simp
qed

theorem https_takes_effect_witness:
  "\<exists>d c. d = daemon_run sample_sto (resolver_sign demo_pki) demo_steps demo_tls \<and>
     fst (resolve_cert (resolver_sign demo_pki 9) (store (d_app d)) (Some ''a.io'') (d_res d)) = Some c \<and>
     fst (service_handle_connection sample_backend (store (d_app d)) (sample_request ''A.io:80'') (V4 ipv4_localhost) False (d_res d)) =
       Inr (MovedPermanently ''https://a.io/v1?x=1'') \<and>
     forwarded (fst (snd (service_handle_connection sample_backend (store (d_app d)) (sample_request ''A.io:80'') (V4 ipv4_localhost) True (d_res d)))) =
       Some (SocketAddrV4 ipv4_localhost 1, proxy_headers (V4 ipv4_localhost) True (sample_request ''A.io:80''))"
proof -
  let ?rule = "local_rule ''a.io'' 1 True"
  let ?d = "daemon_run sample_sto (resolver_sign demo_pki) demo_steps demo_tls"
  have r: "inner_resolve (store (d_app ?d)) ''a.io'' = Some ?rule" by (simp add: demo_run demo_tls_store demo_resolve)
  have s: "signed_by demo_pki 9 ''key'' (domain_params [''a.io'']) = Inr (9, ''key'', [''a.io''])"
    by (simp add: demo_pki_def domain_params_def)
  have pq: "path_and_query (sample_request ''A.io:80'') = Some ''/v1?x=1''" "list_all value_byte ''/v1?x=1''"
    by (simp_all add: sample_request_def value_byte_def)
  have "proxy_target ?rule = SocketAddrV4 ipv4_localhost 1" by (simp add: proxy_target_def)
  with https_takes_effect [OF demo_config demo_run(4) [unfolded demo_tls_def] refl, folded demo_tls_def, OF demo_run(2) demo_load r _ s
      sample_request_host pq, of sample_backend "V4 ipv4_localhost" "\<lparr>status = 200, resp_rest = ''hello''\<rparr>"]
  show ?thesis by (auto simp: sample_backend_def)
qed

text \<open>
  The two front ends disagree on the final dot of a fully qualified name: the DNS server drops
  it and sends the client to the proxy, the proxy looks up the Host with the dot and has no
  rule for it.
\<close>

theorem final_dot_mismatch:
  "query_domain \<lparr>query_name = ''a.io.'', query_type = RT_A, req_header = h\<rparr> = ''a.io'' \<and>
   extract_host [(''host'', ''a.io.'')] = Some ''a.io.'' \<and>
   inner_resolve (inner_add (local_rule ''a.io'' 1 False) inner_new) ''a.io'' = Some (local_rule ''a.io'' 1 False) \<and>
   inner_resolve (inner_add (local_rule ''a.io'' 1 False) inner_new) ''a.io.'' = None"
proof -
  have "query_domain \<lparr>query_name = ''a.io.'', query_type = RT_A, req_header = h\<rparr> = ''a.io''"
    unfolding query_domain_def request.select_convs by code_simp
  moreover have "extract_host [(''host'', ''a.io.'')] = Some ''a.io.''" by code_simp
  moreover have "inner_resolve (inner_add (local_rule ''a.io'' 1 False) inner_new) ''a.io.'' = None" by code_simp
  ultimately show ?thesis using sample_resolve_first by simp
qed

end
